theory Spec2Isabelle
  imports Complex_Main "HOL-Library.Word"
begin

section \<open>Python values: bytes, str and exceptions\<close>

text \<open>
  A Python \<open>bytes\<close> object is a list of 8-bit words; a Python \<open>str\<close> is a list of
  Unicode code points. Every exception the crawler's code can raise is a value of
  \<open>error\<close>, and a function that may raise returns \<open>error + 'a\<close> (\<open>Inl\<close> the exception).
  A \<open>ValueError\<close> carries the fixed part of the message the source raises it with.
\<close>

type_synonym byte = "8 word"
type_synonym bytes = "byte list"
type_synonym pystr = "nat list"

datatype error =
    ValueError string
  | StructError
  | UnicodeEncodeError
  | UnicodeDecodeError
  | IndexError
  | OSError
  | AttributeError
  | FileNotFoundError

definition and_then :: "error + 'a \<Rightarrow> ('a \<Rightarrow> error + 'b) \<Rightarrow> error + 'b" where
  "and_then m f = (case m of Inl e \<Rightarrow> Inl e | Inr x \<Rightarrow> f x)"

text \<open>A string literal of the source as a \<open>str\<close>: the code points of its characters.\<close>

definition pstr :: "string \<Rightarrow> pystr" where
  "pstr s = map of_char s"

text \<open>The slice \<open>xs[a:b]\<close> for non-negative \<open>a\<close> and \<open>b\<close>: it never raises, and is
  shorter than \<open>b - a\<close> where the list ends early.\<close>

definition slice :: "'a list \<Rightarrow> nat \<Rightarrow> nat \<Rightarrow> 'a list" where
  "slice xs a b = take (b - a) (drop a xs)"

text \<open>\<open>data[i]\<close> on bytes: an \<open>IndexError\<close> past the end.\<close>

definition index_at :: "bytes \<Rightarrow> nat \<Rightarrow> error + byte" where
  "index_at data i = (if i < length data then Inr (data ! i) else Inl IndexError)"

subsection \<open>The \<open>struct\<close> module\<close>

fun le_bytes :: "nat \<Rightarrow> nat \<Rightarrow> bytes" where
  "le_bytes 0 n = []"
| "le_bytes (Suc k) n = of_nat n # le_bytes k (n div 256)"

fun le_val :: "bytes \<Rightarrow> nat" where
  "le_val [] = 0"
| "le_val (b # bs) = unat b + 256 * le_val bs"

text \<open>\<open>struct.pack\<close> of an unsigned integer in \<open>k\<close> bytes (\<open><B\<close>, \<open><H\<close>, \<open><I\<close>, \<open><Q\<close> little
  endian, \<open>>H\<close> big endian): \<open>struct.error\<close> when the value is out of range.\<close>

definition pack_le :: "nat \<Rightarrow> int \<Rightarrow> error + bytes" where
  "pack_le k n = (if 0 \<le> n \<and> n < 2 ^ (8 * k) then Inr (le_bytes k (nat n)) else Inl StructError)"

definition pack_be :: "nat \<Rightarrow> int \<Rightarrow> error + bytes" where
  "pack_be k n = (if 0 \<le> n \<and> n < 2 ^ (8 * k) then Inr (rev (le_bytes k (nat n))) else Inl StructError)"

text \<open>\<open>struct.pack("<q", n)\<close>: a signed 64-bit integer in two's complement.\<close>

definition pack_q :: "int \<Rightarrow> error + bytes" where
  "pack_q n = (if - (2 ^ 63) \<le> n \<and> n < 2 ^ 63 then Inr (le_bytes 8 (nat (n mod 2 ^ 64)))
               else Inl StructError)"

text \<open>\<open>struct.pack("<?", b)\<close>.\<close>

definition pack_bool :: "bool \<Rightarrow> bytes" where
  "pack_bool b = [if b then 1 else 0]"

text \<open>\<open>struct.unpack\<close>: \<open>struct.error\<close> unless the buffer has exactly the format's size.\<close>

definition unpack_le :: "nat \<Rightarrow> bytes \<Rightarrow> error + int" where
  "unpack_le k bs = (if length bs = k then Inr (int (le_val bs)) else Inl StructError)"

definition unpack_be :: "nat \<Rightarrow> bytes \<Rightarrow> error + int" where
  "unpack_be k bs = (if length bs = k then Inr (int (le_val (rev bs))) else Inl StructError)"

definition unpack_q :: "bytes \<Rightarrow> error + int" where
  "unpack_q bs =
     (if length bs = 8
      then Inr (if le_val bs < 2 ^ 63 then int (le_val bs) else int (le_val bs) - 2 ^ 64)
      else Inl StructError)"

subsection \<open>Codecs: ASCII\<close>

text \<open>\<open>s.encode("ascii")\<close> and \<open>b.decode("ascii")\<close>: both raise on a value of 128 or more.\<close>

definition encode_ascii :: "pystr \<Rightarrow> error + bytes" where
  "encode_ascii s = (if list_all (\<lambda>c. c < 128) s then Inr (map of_nat s) else Inl UnicodeEncodeError)"

definition decode_ascii :: "bytes \<Rightarrow> error + pystr" where
  "decode_ascii bs = (if list_all (\<lambda>b. unat b < 128) bs then Inr (map unat bs) else Inl UnicodeDecodeError)"

text \<open>\<open>b.ljust(n, fill)\<close> pads on the right and never truncates; \<open>b.rstrip(b"\x00")\<close>
  drops every trailing NUL byte.\<close>

definition ljust :: "nat \<Rightarrow> byte \<Rightarrow> bytes \<Rightarrow> bytes" where
  "ljust n fill bs = bs @ replicate (n - length bs) fill"

definition rstrip_nul :: "bytes \<Rightarrow> bytes" where
  "rstrip_nul bs = rev (dropWhile (\<lambda>b. b = 0) (rev bs))"

subsection \<open>Codecs: UTF-8\<close>

text \<open>
  \<open>s.encode("utf-8")\<close>: one to four bytes per code point; a surrogate code point
  (\<open>0xD800\<close> to \<open>0xDFFF\<close>) raises \<open>UnicodeEncodeError\<close>. A \<open>str\<close> holds no code point
  above \<open>0x10FFFF\<close>; the model raises there too.
\<close>

definition utf8_encodable :: "nat \<Rightarrow> bool" where
  "utf8_encodable c = (if c < 0xD800 then True else if c < 0xE000 then False else c < 0x110000)"

definition utf8_encode_cp :: "nat \<Rightarrow> nat list" where
  "utf8_encode_cp c =
     (if c < 0x80 then [c]
      else if c < 0x800 then [0xC0 + c div 64, 0x80 + c mod 64]
      else if c < 0x10000 then [0xE0 + c div 4096, 0x80 + c div 64 mod 64, 0x80 + c mod 64]
      else [0xF0 + c div 262144, 0x80 + c div 4096 mod 64, 0x80 + c div 64 mod 64, 0x80 + c mod 64])"

definition encode_utf8 :: "pystr \<Rightarrow> error + bytes" where
  "encode_utf8 s =
     (if list_all utf8_encodable s then Inr (map of_nat (concat (map utf8_encode_cp s)))
      else Inl UnicodeEncodeError)"

text \<open>
  \<open>b.decode("utf-8", errors="replace")\<close> never raises: every maximal ill-formed
  subsequence becomes one \<open>U+FFFD\<close> and decoding resumes after it. The second byte of a
  three- or four-byte sequence has a narrower range after \<open>E0\<close>, \<open>ED\<close>, \<open>F0\<close> and \<open>F4\<close>
  (no overlong form, no surrogate, nothing above \<open>0x10FFFF\<close>).
\<close>

definition is_cont :: "nat \<Rightarrow> bool" where
  "is_cont b = (0x80 \<le> b \<and> b < 0xC0)"

definition second_ok :: "nat \<Rightarrow> nat \<Rightarrow> bool" where
  "second_ok b0 b1 =
     (if b0 = 0xE0 then 0xA0 \<le> b1 \<and> b1 < 0xC0
      else if b0 = 0xED then 0x80 \<le> b1 \<and> b1 < 0xA0
      else if b0 = 0xF0 then 0x90 \<le> b1 \<and> b1 < 0xC0
      else if b0 = 0xF4 then 0x80 \<le> b1 \<and> b1 < 0x90
      else is_cont b1)"

fun utf8_replace :: "nat list \<Rightarrow> pystr" where
  "utf8_replace [] = []"
| "utf8_replace (b0 # bs) =
     (if b0 < 0x80 then b0 # utf8_replace bs
      else if b0 < 0xC2 then 0xFFFD # utf8_replace bs
      else if b0 < 0xE0 then
        (case bs of
           [] \<Rightarrow> [0xFFFD]
         | b1 # bs1 \<Rightarrow>
             if is_cont b1 then ((b0 - 0xC0) * 64 + (b1 - 0x80)) # utf8_replace bs1
             else 0xFFFD # utf8_replace bs)
      else if b0 < 0xF0 then
        (case bs of
           [] \<Rightarrow> [0xFFFD]
         | b1 # bs1 \<Rightarrow>
             if second_ok b0 b1 then
               (case bs1 of
                  [] \<Rightarrow> [0xFFFD]
                | b2 # bs2 \<Rightarrow>
                    if is_cont b2
                    then ((b0 - 0xE0) * 4096 + (b1 - 0x80) * 64 + (b2 - 0x80)) # utf8_replace bs2
                    else 0xFFFD # utf8_replace bs1)
             else 0xFFFD # utf8_replace bs)
      else if b0 < 0xF5 then
        (case bs of
           [] \<Rightarrow> [0xFFFD]
         | b1 # bs1 \<Rightarrow>
             if second_ok b0 b1 then
               (case bs1 of
                  [] \<Rightarrow> [0xFFFD]
                | b2 # bs2 \<Rightarrow>
                    if is_cont b2 then
                      (case bs2 of
                         [] \<Rightarrow> [0xFFFD]
                       | b3 # bs3 \<Rightarrow>
                           if is_cont b3
                           then ((b0 - 0xF0) * 262144 + (b1 - 0x80) * 4096 + (b2 - 0x80) * 64
                                   + (b3 - 0x80)) # utf8_replace bs3
                           else 0xFFFD # utf8_replace bs2)
                    else 0xFFFD # utf8_replace bs1)
             else 0xFFFD # utf8_replace bs)
      else 0xFFFD # utf8_replace bs)"

definition decode_utf8_replace :: "bytes \<Rightarrow> pystr" where
  "decode_utf8_replace bs = utf8_replace (map unat bs)"

subsection \<open>The \<open>socket\<close> module\<close>

text \<open>
  \<open>socket.inet_ntoa\<close> prints four bytes as a dotted quad and raises \<open>OSError\<close> on any
  other length. \<open>socket.inet_pton(AF_INET, s)\<close> accepts exactly four decimal fields of
  one to three digits, none with a leading zero, each at most 255, and raises \<open>OSError\<close>
  otherwise.
\<close>

definition dec_octet :: "nat \<Rightarrow> pystr" where
  "dec_octet n =
     (if n < 10 then [48 + n]
      else if n < 100 then [48 + n div 10, 48 + n mod 10]
      else [48 + n div 100, 48 + n div 10 mod 10, 48 + n mod 10])"

definition dotted_quad :: "byte \<Rightarrow> byte \<Rightarrow> byte \<Rightarrow> byte \<Rightarrow> pystr" where
  "dotted_quad a b c d =
     dec_octet (unat a) @ [46] @ dec_octet (unat b) @ [46] @
     dec_octet (unat c) @ [46] @ dec_octet (unat d)"

definition inet_ntoa :: "bytes \<Rightarrow> error + pystr" where
  "inet_ntoa packed =
     (case packed of
        [a, b, c, d] \<Rightarrow> Inr (dotted_quad a b c d)
      | _ \<Rightarrow> Inl OSError)"

fun split_dots :: "pystr \<Rightarrow> pystr list" where
  "split_dots [] = [[]]"
| "split_dots (c # cs) =
     (if c = 46 then [] # split_dots cs
      else (case split_dots cs of [] \<Rightarrow> [[c]] | p # ps \<Rightarrow> (c # p) # ps))"

definition parse_octet :: "pystr \<Rightarrow> nat option" where
  "parse_octet ds =
     (if ds = [] then None
      else if 3 < length ds then None
      else if list_ex (\<lambda>c. c < 48 \<or> 57 < c) ds then None
      else if 1 < length ds \<and> hd ds = 48 then None
      else (let v = foldl (\<lambda>a c. 10 * a + (c - 48)) 0 ds in if v \<le> 255 then Some v else None))"

definition inet_pton4 :: "pystr \<Rightarrow> error + bytes" where
  "inet_pton4 s =
     (case map parse_octet (split_dots s) of
        [Some a, Some b, Some c, Some d] \<Rightarrow> Inr [of_nat a, of_nat b, of_nat c, of_nat d]
      | _ \<Rightarrow> Inl OSError)"

text \<open>
  The IPv6 text forms are the C library's: \<open>socket.inet_pton(AF_INET6, s)\<close> and
  \<open>socket.inet_ntop(AF_INET6, b)\<close> are parameters of the model. The parser \<open>pton6\<close>
  returns the address as a 128-bit value, packed as 16 bytes in network order, or \<open>None\<close>
  (an \<open>OSError\<close>); the printer \<open>ntop6\<close> takes 16 packed bytes. \<open>inet_ntop\<close> raises
  \<open>ValueError\<close> on any other length.
\<close>

type_synonym pton6 = "pystr \<Rightarrow> 128 word option"
type_synonym ntop6 = "bytes \<Rightarrow> pystr"

definition inet_pton6 :: "pton6 \<Rightarrow> pystr \<Rightarrow> error + bytes" where
  "inet_pton6 parse6 s =
     (case parse6 s of None \<Rightarrow> Inl OSError | Some w \<Rightarrow> Inr (rev (le_bytes 16 (unat w))))"

definition inet_ntop6 :: "ntop6 \<Rightarrow> bytes \<Rightarrow> error + pystr" where
  "inet_ntop6 print6 packed =
     (if length packed = 16 then Inr (print6 packed)
      else Inl (ValueError ''invalid length of packed IP address string''))"

text \<open>The values of \<open>inet_pton\<close> at two IPv6 addresses: the loopback address \<open>::1\<close> and
  the documentation address \<open>2001:db8::1\<close>.\<close>

definition inet_pton6_sample :: pton6 where
  "inet_pton6_sample s =
     (if s = pstr ''::1'' then Some 1
      else if s = pstr ''2001:db8::1'' then Some 0x20010db8000000000000000000000001
      else None)"

section \<open>The message frame (protocol.py)\<close>

text \<open>
  \<open>hashlib.sha256\<close> is a parameter of the model: any function from byte strings to
  256-bit digests. \<open>digest\<close> is the 32-byte big-endian image of a digest value.
\<close>

type_synonym sha256 = "bytes \<Rightarrow> 256 word"

definition digest :: "256 word \<Rightarrow> bytes" where
  "digest w = rev (le_bytes 32 (unat w))"

definition double_sha256 :: "sha256 \<Rightarrow> bytes \<Rightarrow> bytes" where
  "double_sha256 H data = digest (H (digest (H data)))"

definition create_message :: "sha256 \<Rightarrow> bytes \<Rightarrow> pystr \<Rightarrow> bytes \<Rightarrow> error + bytes" where
  "create_message H magic command payload =
     and_then (encode_ascii command) (\<lambda>command_enc.
     and_then (pack_le 4 (int (length payload))) (\<lambda>len.
       Inr (magic @ ljust 12 0 command_enc @ len @ take 4 (double_sha256 H payload) @ payload)))"

definition parse_message :: "sha256 \<Rightarrow> bytes \<Rightarrow> bytes \<Rightarrow> error + (pystr \<times> bytes \<times> bytes)" where
  "parse_message H data magic =
     (if length data < 24 then Inl (ValueError ''Message too short'')
      else if take 4 data \<noteq> magic then Inl (ValueError ''Invalid magic bytes'')
      else
        and_then (decode_ascii (rstrip_nul (slice data 4 16))) (\<lambda>command.
        and_then (unpack_le 4 (slice data 16 20)) (\<lambda>len.
          let checksum = slice data 20 24 in
          if int (length data) < 24 + len then Inl (ValueError ''Incomplete message'')
          else
            let payload = slice data 24 (24 + nat len) in
            if take 4 (double_sha256 H payload) \<noteq> checksum then Inl (ValueError ''Invalid checksum'')
            else Inr (command, payload, drop (24 + nat len) data))))"

section \<open>The version and addr payloads (protocol.py)\<close>

record NetAddr =
  services :: int
  ip :: pystr
  port :: int
  timestamp :: "int option"

record VersionPayload =
  version :: int
  v_services :: int
  v_timestamp :: int
  addr_recv :: NetAddr
  addr_from :: NetAddr
  nonce :: int
  user_agent :: pystr
  start_height :: int
  relay :: bool

text \<open>\<open>ChainConfig\<close> of config.py, with the types its annotations declare.\<close>

record ChainConfig =
  name :: pystr
  ticker :: pystr
  p2p_port :: int
  rpc_port :: int
  protocol_version :: int
  magic_bytes :: bytes
  dns_seeds :: "pystr list"
  seed_nodes :: "pystr list"
  current_version :: pystr
  minimum_version :: pystr
  user_agent_pattern :: pystr

definition SERVICES_NODE_NETWORK :: int where
  "SERVICES_NODE_NETWORK = 1"

text \<open>A chain configuration with the values of Bitcoin's main network, to run the model on.\<close>

definition bitcoin_config :: ChainConfig where
  "bitcoin_config =
     \<lparr> name = pstr ''Bitcoin'', ticker = pstr ''BTC'', p2p_port = 8333, rpc_port = 8332,
       protocol_version = 70016, magic_bytes = [0xf9, 0xbe, 0xb4, 0xd9],
       dns_seeds = [pstr ''seed.bitcoin.sipa.be''], seed_nodes = [],
       current_version = pstr ''27.0.0'', minimum_version = pstr ''0.21.0'',
       user_agent_pattern = pstr ''/Satoshi:([0-9.]+)/'' \<rparr>"

text \<open>
  The 16-byte IP field of \<open>addr_recv\<close>: the branch on \<open>":" in recv_ip\<close> of
  \<open>create_version_message\<close>, native IPv6 or the IPv4-mapped form.
\<close>

definition recv_ip_field :: "pton6 \<Rightarrow> pystr \<Rightarrow> error + bytes" where
  "recv_ip_field parse6 recv_ip =
     (if 58 \<in> set recv_ip then inet_pton6 parse6 recv_ip
      else and_then (inet_pton4 recv_ip) (\<lambda>packed. Inr (replicate 10 0 @ [0xff, 0xff] @ packed)))"

text \<open>
  \<open>create_version_message\<close>. The clock reading \<open>int(time.time())\<close> and the 64 random bits
  of \<open>random.getrandbits(64)\<close> are inputs of the model (\<open>now\<close>, \<open>rnd\<close>). The payload is
  built field by field in the order of the source; any \<open>struct.error\<close>, codec error or
  \<open>OSError\<close> ends the call.
\<close>

definition version_payload ::
  "pton6 \<Rightarrow> int \<Rightarrow> 64 word \<Rightarrow> ChainConfig \<Rightarrow> pystr \<Rightarrow> int \<Rightarrow> int \<Rightarrow> error + bytes" where
  "version_payload parse6 now rnd chain_config recv_ip recv_port height =
     (let ua = [47] @ name chain_config @ pstr ''NodesCrawler:0.1.0/'' in
      and_then (encode_utf8 ua) (\<lambda>user_agent_bytes.
      and_then (pack_le 4 (protocol_version chain_config)) (\<lambda>f_version.
      and_then (pack_le 8 SERVICES_NODE_NETWORK) (\<lambda>f_services.
      and_then (pack_q now) (\<lambda>f_timestamp.
      and_then (pack_le 8 SERVICES_NODE_NETWORK) (\<lambda>f_recv_services.
      and_then (recv_ip_field parse6 recv_ip) (\<lambda>f_recv_ip.
      and_then (pack_be 2 recv_port) (\<lambda>f_recv_port.
      and_then (pack_le 8 SERVICES_NODE_NETWORK) (\<lambda>f_from_services.
      and_then (inet_pton4 (pstr ''0.0.0.0'')) (\<lambda>from_packed.
      and_then (pack_be 2 0) (\<lambda>f_from_port.
      and_then (pack_le 8 (uint rnd)) (\<lambda>f_nonce.
      and_then (pack_le 1 (int (length user_agent_bytes))) (\<lambda>f_ua_len.
      and_then (pack_le 4 height) (\<lambda>f_height.
        Inr (f_version @ f_services @ f_timestamp @
             f_recv_services @ f_recv_ip @ f_recv_port @
             f_from_services @ (replicate 10 0 @ [0xff, 0xff] @ from_packed) @ f_from_port @
             f_nonce @ f_ua_len @ user_agent_bytes @ f_height @ pack_bool True)))))))))))))))"

definition create_version_message ::
  "sha256 \<Rightarrow> pton6 \<Rightarrow> int \<Rightarrow> 64 word \<Rightarrow> ChainConfig \<Rightarrow> pystr \<Rightarrow> int \<Rightarrow> int \<Rightarrow> error + bytes" where
  "create_version_message H parse6 now rnd chain_config recv_ip recv_port height =
     and_then (version_payload parse6 now rnd chain_config recv_ip recv_port height) (\<lambda>payload.
       create_message H (magic_bytes chain_config) (pstr ''version'') payload)"

text \<open>
  \<open>parse_version_payload\<close>, offsets as in the source: version at 0, services at 4,
  timestamp at 12, \<open>addr_recv\<close> at 20, \<open>addr_from\<close> at 46, nonce at 72, the user agent's
  length byte at 80. Of either address only the last four bytes of the 16-byte IP field
  are read, through \<open>inet_ntoa\<close>.
\<close>

definition parse_version_payload :: "bytes \<Rightarrow> error + VersionPayload" where
  "parse_version_payload payload =
     and_then (unpack_le 4 (slice payload 0 4)) (\<lambda>p_version.
     and_then (unpack_le 8 (slice payload 4 12)) (\<lambda>p_services.
     and_then (unpack_q (slice payload 12 20)) (\<lambda>p_timestamp.
     and_then (unpack_le 8 (slice payload 20 28)) (\<lambda>recv_services.
     and_then (inet_ntoa (slice payload (28 + 12) (28 + 16))) (\<lambda>recv_ip.
     and_then (unpack_be 2 (slice payload 44 46)) (\<lambda>recv_port.
     and_then (unpack_le 8 (slice payload 46 54)) (\<lambda>from_services.
     and_then (inet_ntoa (slice payload (54 + 12) (54 + 16))) (\<lambda>from_ip.
     and_then (unpack_be 2 (slice payload 70 72)) (\<lambda>from_port.
     and_then (unpack_le 8 (slice payload 72 80)) (\<lambda>p_nonce.
     and_then (index_at payload 80) (\<lambda>len_byte.
       let user_agent_len = unat len_byte;
           p_user_agent = decode_utf8_replace (slice payload 81 (81 + user_agent_len));
           offset = 81 + user_agent_len
       in
       and_then (unpack_le 4 (slice payload offset (offset + 4))) (\<lambda>p_height.
         Inr \<lparr> version = p_version, v_services = p_services, v_timestamp = p_timestamp,
               addr_recv = \<lparr> services = recv_services, ip = recv_ip, port = recv_port,
                             timestamp = None \<rparr>,
               addr_from = \<lparr> services = from_services, ip = from_ip, port = from_port,
                             timestamp = None \<rparr>,
               nonce = p_nonce, user_agent = p_user_agent, start_height = p_height,
               relay = (if offset + 4 < length payload then payload ! (offset + 4) \<noteq> 0
                        else True) \<rparr>))))))))))))"

text \<open>\<open>read_varint\<close>: the value and the offset after it.\<close>

definition read_varint :: "bytes \<Rightarrow> nat \<Rightarrow> error + (int \<times> nat)" where
  "read_varint data offset =
     and_then (index_at data offset) (\<lambda>first_byte.
       if unat first_byte < 0xFD then Inr (uint first_byte, offset + 1)
       else if first_byte = 0xFD then
         and_then (unpack_le 2 (slice data (offset + 1) (offset + 3))) (\<lambda>v. Inr (v, offset + 3))
       else if first_byte = 0xFE then
         and_then (unpack_le 4 (slice data (offset + 1) (offset + 5))) (\<lambda>v. Inr (v, offset + 5))
       else
         and_then (unpack_le 8 (slice data (offset + 1) (offset + 9))) (\<lambda>v. Inr (v, offset + 9)))"

text \<open>
  The loop of \<open>parse_addr_payload\<close>: \<open>for _ in range(count)\<close>, with the \<open>break\<close> where
  fewer than 30 bytes remain. One entry is 4 bytes of timestamp, 8 of services, 16 of IP
  and 2 of port.
\<close>

fun addr_loop :: "ntop6 \<Rightarrow> bytes \<Rightarrow> nat \<Rightarrow> nat \<Rightarrow> NetAddr list \<Rightarrow> error + NetAddr list" where
  "addr_loop print6 payload 0 offset addresses = Inr addresses"
| "addr_loop print6 payload (Suc n) offset addresses =
     (if offset + 30 > length payload then Inr addresses
      else
        and_then (unpack_le 4 (slice payload offset (offset + 4))) (\<lambda>a_timestamp.
        and_then (unpack_le 8 (slice payload (offset + 4) (offset + 12))) (\<lambda>a_services.
          let ip_bytes = slice payload (offset + 12) (offset + 28) in
          and_then (if take 12 ip_bytes = replicate 10 0 @ [0xff, 0xff]
                    then inet_ntoa (slice ip_bytes 12 16)
                    else inet_ntop6 print6 ip_bytes) (\<lambda>a_ip.
          and_then (unpack_be 2 (slice payload (offset + 28) (offset + 30))) (\<lambda>a_port.
            addr_loop print6 payload n (offset + 30)
              (addresses @ [\<lparr> services = a_services, ip = a_ip, port = a_port,
                               timestamp = Some a_timestamp \<rparr>]))))))"

definition parse_addr_payload :: "ntop6 \<Rightarrow> bytes \<Rightarrow> error + NetAddr list" where
  "parse_addr_payload print6 payload =
     and_then (read_varint payload 0) (\<lambda>(count, offset).
       addr_loop print6 payload (nat count) offset [])"

text \<open>
  The \<open>NetAddr\<close> one pass of the loop body appends, read from the 30 bytes at
  \<open>offset\<close>: the values the body unpacks when those bytes are present.
\<close>

definition addr_entry :: "ntop6 \<Rightarrow> bytes \<Rightarrow> nat \<Rightarrow> NetAddr" where
  "addr_entry print6 payload offset =
     \<lparr> services = int (le_val (slice payload (offset + 4) (offset + 12))),
       ip = (if take 12 (slice payload (offset + 12) (offset + 28)) = replicate 10 0 @ [0xff, 0xff]
             then dotted_quad (payload ! (offset + 24)) (payload ! (offset + 25))
                              (payload ! (offset + 26)) (payload ! (offset + 27))
             else print6 (slice payload (offset + 12) (offset + 28))),
       port = int (le_val (rev (slice payload (offset + 28) (offset + 30)))),
       timestamp = Some (int (le_val (slice payload offset (offset + 4)))) \<rparr>"

section \<open>The GeoIP lookup cache (geoip.py)\<close>

text \<open>
  A Python \<open>dict\<close> keeps its keys in insertion order: it is a list of key-value pairs
  with distinct keys. \<open>d[k] = v\<close> replaces the value of a present key in place and
  appends an absent one; \<open>del d[k]\<close> removes the pair.
\<close>

fun dict_set :: "('k \<times> 'v) list \<Rightarrow> 'k \<Rightarrow> 'v \<Rightarrow> ('k \<times> 'v) list" where
  "dict_set [] k v = [(k, v)]"
| "dict_set (p # d) k v = (if fst p = k then (k, v) # d else p # dict_set d k v)"

definition dict_del :: "('k \<times> 'v) list \<Rightarrow> 'k \<Rightarrow> ('k \<times> 'v) list" where
  "dict_del d k = filter (\<lambda>p. fst p \<noteq> k) d"

text \<open>
  The outcome of a database reader's call (\<open>reader.city(ip)\<close>, \<open>asn_reader.asn(ip)\<close>): a
  response, \<open>AddressNotFoundError\<close>, or any other exception. The readers belong to the
  \<open>geoip2\<close> library and are parameters of the model; \<open>'v\<close> is the type of the values a
  response carries.
\<close>

datatype 'a outcome = Found 'a | AddressNotFound | Failed

record 'v CityResponse =
  country_iso_code :: "'v option"
  country_name_of :: "'v option"
  subdivision_name :: "'v option option"
  city_name_of :: "'v option"
  location_latitude :: "'v option"
  location_longitude :: "'v option"
  location_time_zone :: "'v option"
  traits :: "('v option \<times> 'v option) option"

record 'v AsnResponse =
  autonomous_system_number :: "'v option"
  autonomous_system_organization :: "'v option"

text \<open>The result dict of \<open>lookup\<close>, one field per key.\<close>

record 'v GeoResult =
  country_code :: "'v option"
  country_name :: "'v option"
  region :: "'v option"
  city :: "'v option"
  latitude :: "'v option"
  longitude :: "'v option"
  timezone :: "'v option"
  isp :: "'v option"
  org :: "'v option"
  asn :: "'v option"
  asn_org :: "'v option"

record 'v GeoIPLookup =
  reader :: "(pystr \<Rightarrow> 'v CityResponse outcome) option"
  asn_reader :: "(pystr \<Rightarrow> 'v AsnResponse outcome) option"
  cache :: "(pystr \<times> 'v GeoResult) list"

text \<open>\<open>__init__\<close> leaves each reader loaded or \<open>None\<close>, and the cache empty.\<close>

definition new_lookup ::
  "(pystr \<Rightarrow> 'v CityResponse outcome) option \<Rightarrow> (pystr \<Rightarrow> 'v AsnResponse outcome) option \<Rightarrow> 'v GeoIPLookup" where
  "new_lookup city_reader as_reader = \<lparr> reader = city_reader, asn_reader = as_reader, cache = [] \<rparr>"

definition empty_result :: "'v GeoResult" where
  "empty_result =
     \<lparr> country_code = None, country_name = None, region = None, city = None, latitude = None,
       longitude = None, timezone = None, isp = None, org = None, asn = None, asn_org = None \<rparr>"

definition city_result :: "'v CityResponse \<Rightarrow> 'v GeoResult \<Rightarrow> 'v GeoResult" where
  "city_result response result =
     (let r = result \<lparr> country_code := country_iso_code response,
                       country_name := country_name_of response,
                       region := (case subdivision_name response of None \<Rightarrow> None | Some n \<Rightarrow> n),
                       city := city_name_of response,
                       latitude := location_latitude response,
                       longitude := location_longitude response,
                       timezone := location_time_zone response \<rparr>
      in case traits response of
           None \<Rightarrow> r
         | Some (t_isp, t_org) \<Rightarrow> r \<lparr> isp := t_isp, org := t_org \<rparr>)"

definition asn_result :: "'v AsnResponse \<Rightarrow> 'v GeoResult \<Rightarrow> 'v GeoResult" where
  "asn_result response result =
     result \<lparr> asn := autonomous_system_number response,
              asn_org := autonomous_system_organization response \<rparr>"

text \<open>
  \<open>lookup\<close> returns the result and leaves the object in a new state. A cached address
  returns at once; without a city reader the empty result is returned and not cached.
  Both \<open>except\<close> clauses swallow the reader's exception and keep the result so far.
\<close>

definition lookup :: "'v GeoIPLookup \<Rightarrow> pystr \<Rightarrow> 'v GeoResult \<times> 'v GeoIPLookup" where
  "lookup self addr =
     (case map_of (cache self) addr of
        Some cached \<Rightarrow> (cached, self)
      | None \<Rightarrow>
          (case reader self of
             None \<Rightarrow> (empty_result, self)
           | Some city_reader \<Rightarrow>
               let result1 = (case city_reader addr of
                                Found response \<Rightarrow> city_result response empty_result
                              | AddressNotFound \<Rightarrow> empty_result
                              | Failed \<Rightarrow> empty_result);
                   result2 = (case asn_reader self of
                                None \<Rightarrow> result1
                              | Some as_reader \<Rightarrow>
                                  (case as_reader addr of
                                     Found response \<Rightarrow> asn_result response result1
                                   | AddressNotFound \<Rightarrow> result1
                                   | Failed \<Rightarrow> result1));
                   cache1 = dict_set (cache self) addr result2;
                   cache2 = (if length cache1 > 10000
                             then fold (\<lambda>key d. dict_del d key) (take 5000 (map fst cache1)) cache1
                             else cache1)
               in (result2, self \<lparr> cache := cache2 \<rparr>)))"

text \<open>The state after a sequence of calls of \<open>lookup\<close>.\<close>

fun lookups :: "'v GeoIPLookup \<Rightarrow> pystr list \<Rightarrow> 'v GeoIPLookup" where
  "lookups self [] = self"
| "lookups self (addr # addrs) = lookups (snd (lookup self addr)) addrs"

section \<open>Configuration (config.py)\<close>

text \<open>
  A parsed YAML document, as \<open>yaml.safe_load\<close> returns it. The keys of a mapping that the
  code looks up are ASCII literals, so keys are strings of characters. A Python float is
  a finite rational value, an infinity or a NaN.
\<close>

datatype pyfloat = Finite rat | PosInf | NegInf | NaN

datatype yaml =
    YNull
  | YBool bool
  | YInt int
  | YFloat pyfloat
  | YStr pystr
  | YList "yaml list"
  | YDict "(string \<times> yaml) list"

text \<open>The comparisons \<open>x <= 0\<close> and \<open>x < 1\<close> on a float: both are false of a NaN.\<close>

fun float_le_zero :: "pyfloat \<Rightarrow> bool" where
  "float_le_zero (Finite q) = (q \<le> 0)"
| "float_le_zero NegInf = True"
| "float_le_zero PosInf = False"
| "float_le_zero NaN = False"

fun float_lt_one :: "pyfloat \<Rightarrow> bool" where
  "float_lt_one (Finite q) = (q < 1)"
| "float_lt_one NegInf = True"
| "float_lt_one PosInf = False"
| "float_lt_one NaN = False"

text \<open>
  Python's built-ins are parameters of the model: \<open>str(v)\<close> of a YAML value, \<open>int(s)\<close> and
  \<open>float(s)\<close> of a string (\<open>None\<close> where they raise \<open>ValueError\<close>), and \<open>s.lower()\<close>.
\<close>

record builtins =
  py_str :: "yaml \<Rightarrow> pystr"
  py_int :: "pystr \<Rightarrow> int option"
  py_float :: "pystr \<Rightarrow> pyfloat option"
  py_lower :: "pystr \<Rightarrow> pystr"

text \<open>
  What \<open>load_config\<close> reads from outside: the process environment, the outcome of
  \<open>load_chain_config_from_yaml()\<close>, the parsed \<open>project.config.yaml\<close> as
  \<open>load_crawler_config_from_yaml\<close> finds it (\<open>None\<close> when no candidate path exists), and
  the file-system queries behind the GeoIP path.
\<close>

record world =
  environ :: "string \<Rightarrow> pystr option"
  chain_yaml :: "error + ChainConfig"
  project_config :: "yaml option"
  is_dir :: "pystr \<Rightarrow> bool"
  is_abs :: "pystr \<Rightarrow> bool"
  os_path_join :: "pystr \<Rightarrow> pystr \<Rightarrow> pystr"
  project_root :: pystr
  path_div :: "pystr \<Rightarrow> pystr \<Rightarrow> pystr"

record CrawlerConfig =
  chain :: pystr
  chain_config :: ChainConfig
  supabase_url :: pystr
  supabase_key :: pystr
  rpc_host :: "pystr option"
  crawler_rpc_port :: int
  rpc_user :: "pystr option"
  rpc_pass :: "pystr option"
  geoip_db_path :: pystr
  interval_minutes :: int
  max_concurrent :: int
  connection_timeout :: int
  extended_timeout :: int
  getaddr_delay_ms :: int
  prune_after_hours :: int
  max_retries :: int
  initial_retry_delay :: pyfloat
  retry_backoff_multiplier :: pyfloat
  fallback_protocol_versions :: "yaml list"
  require_version_for_save :: yaml
  alerts_enabled :: bool
  web_app_url :: pystr
  alerts_api_key :: "pystr option"

text \<open>\<open>os.getenv(name, default)\<close>.\<close>

definition getenv :: "world \<Rightarrow> string \<Rightarrow> pystr \<Rightarrow> pystr" where
  "getenv w var dflt = (case environ w var of None \<Rightarrow> dflt | Some v \<Rightarrow> v)"

text \<open>\<open>d.get(key, default)\<close>: \<open>AttributeError\<close> when \<open>d\<close> is not a mapping.\<close>

definition yaml_get :: "yaml \<Rightarrow> string \<Rightarrow> yaml \<Rightarrow> error + yaml" where
  "yaml_get d key dflt =
     (case d of
        YDict items \<Rightarrow> Inr (case map_of items key of None \<Rightarrow> dflt | Some v \<Rightarrow> v)
      | _ \<Rightarrow> Inl AttributeError)"

definition load_crawler_config_from_yaml :: "world \<Rightarrow> error + yaml" where
  "load_crawler_config_from_yaml w =
     (case project_config w of
        None \<Rightarrow>
          Inr (YDict [(''pruneAfterHours'', YInt 168), (''scanIntervalMinutes'', YInt 5),
                      (''maxConcurrentConnections'', YInt 100),
                      (''connectionTimeoutSeconds'', YInt 10),
                      (''extendedTimeoutSeconds'', YInt 30), (''maxRetries'', YInt 3),
                      (''initialRetryDelaySeconds'', YInt 1),
                      (''retryBackoffMultiplier'', YInt 2),
                      (''fallbackProtocolVersions'', YList []),
                      (''requireVersionForSave'', YBool True)])
      | Some doc \<Rightarrow> yaml_get doc ''crawlerConfig'' (YDict []))"

text \<open>
  The pattern \<open>int(os.getenv(VAR, str(crawler_yaml.get(key, default))))\<close> of
  \<open>load_config\<close>, and the same with \<open>float\<close>.
\<close>

definition setting_int :: "builtins \<Rightarrow> world \<Rightarrow> yaml \<Rightarrow> string \<Rightarrow> string \<Rightarrow> int \<Rightarrow> error + int" where
  "setting_int b w crawler_yaml var key dflt =
     and_then (yaml_get crawler_yaml key (YInt dflt)) (\<lambda>v.
       case py_int b (getenv w var (py_str b v)) of
         None \<Rightarrow> Inl (ValueError ''invalid literal for int() with base 10'')
       | Some n \<Rightarrow> Inr n)"

definition setting_float :: "builtins \<Rightarrow> world \<Rightarrow> yaml \<Rightarrow> string \<Rightarrow> string \<Rightarrow> int \<Rightarrow> error + pyfloat" where
  "setting_float b w crawler_yaml var key dflt =
     and_then (yaml_get crawler_yaml key (YInt dflt)) (\<lambda>v.
       case py_float b (getenv w var (py_str b v)) of
         None \<Rightarrow> Inl (ValueError ''could not convert string to float'')
       | Some x \<Rightarrow> Inr x)"

text \<open>\<open>int(s)\<close> of a string that is not read through the YAML file.\<close>

definition int_of_str :: "builtins \<Rightarrow> pystr \<Rightarrow> error + int" where
  "int_of_str b s =
     (case py_int b s of
        None \<Rightarrow> Inl (ValueError ''invalid literal for int() with base 10'')
      | Some n \<Rightarrow> Inr n)"

text \<open>The check of \<open>fallbackProtocolVersions\<close>: a value that is no list becomes the empty
  list; an element that is no \<open>int\<close> raises (a \<open>bool\<close> is an \<open>int\<close> in Python).\<close>

fun is_int_value :: "yaml \<Rightarrow> bool" where
  "is_int_value (YInt n) = True"
| "is_int_value (YBool t) = True"
| "is_int_value v = False"

definition validate_fallback :: "yaml \<Rightarrow> error + yaml list" where
  "validate_fallback v =
     (case v of
        YList vs \<Rightarrow>
          if list_all is_int_value vs then Inr vs
          else Inl (ValueError ''fallbackProtocolVersions must be integers'')
      | _ \<Rightarrow> Inr [])"

text \<open>The resolution of the GeoIP database path.\<close>

definition resolve_geoip_path :: "world \<Rightarrow> pystr" where
  "resolve_geoip_path w =
     (let geoip_path = getenv w ''GEOIP_DB_PATH'' (pstr ''./data/geoip/GeoLite2-City.mmdb'');
          geoip_path = (if is_dir w geoip_path
                        then os_path_join w geoip_path (pstr ''GeoLite2-City.mmdb'')
                        else geoip_path)
      in if is_abs w geoip_path then geoip_path else path_div w (project_root w) geoip_path)"

text \<open>
  \<open>load_config\<close>: the loaded configuration, with a flag that tells whether the warning
  about a high \<open>maxRetries\<close> was printed, or the exception raised.
\<close>

definition load_config :: "builtins \<Rightarrow> world \<Rightarrow> error + (bool \<times> CrawlerConfig)" where
  "load_config b w =
     and_then (chain_yaml w) (\<lambda>cc.
     let chain_name = getenv w ''CHAIN'' (py_lower b (name cc)) in
     and_then (load_crawler_config_from_yaml w) (\<lambda>crawler_yaml.
     let geoip_path = resolve_geoip_path w in
     and_then (setting_int b w crawler_yaml ''PRUNE_AFTER_HOURS'' ''pruneAfterHours'' 168) (\<lambda>prune.
     and_then (setting_int b w crawler_yaml ''CRAWLER_INTERVAL_MINUTES'' ''scanIntervalMinutes'' 5) (\<lambda>interval.
     and_then (setting_int b w crawler_yaml ''MAX_CONCURRENT_CONNECTIONS'' ''maxConcurrentConnections'' 100) (\<lambda>concurrent.
     and_then (setting_int b w crawler_yaml ''CONNECTION_TIMEOUT_SECONDS'' ''connectionTimeoutSeconds'' 10) (\<lambda>conn_timeout.
     and_then (setting_int b w crawler_yaml ''EXTENDED_TIMEOUT_SECONDS'' ''extendedTimeoutSeconds'' 30) (\<lambda>ext_timeout.
     and_then (setting_int b w crawler_yaml ''MAX_RETRIES'' ''maxRetries'' 3) (\<lambda>retries.
     and_then (setting_float b w crawler_yaml ''INITIAL_RETRY_DELAY_SECONDS'' ''initialRetryDelaySeconds'' 1) (\<lambda>retry_delay.
     and_then (setting_float b w crawler_yaml ''RETRY_BACKOFF_MULTIPLIER'' ''retryBackoffMultiplier'' 2) (\<lambda>backoff.
     and_then (yaml_get crawler_yaml ''fallbackProtocolVersions'' (YList [])) (\<lambda>fallback.
     and_then (yaml_get crawler_yaml ''requireVersionForSave'' (YBool True)) (\<lambda>require_version.
       if retries < 0 then Inl (ValueError ''maxRetries must be >= 0'')
       else
         let warned = (retries > 10) in
         if conn_timeout \<le> 0 then Inl (ValueError ''connectionTimeoutSeconds must be > 0'')
         else if ext_timeout < conn_timeout
           then Inl (ValueError ''extendedTimeoutSeconds must be >= connectionTimeoutSeconds'')
         else if float_le_zero retry_delay
           then Inl (ValueError ''initialRetryDelaySeconds must be > 0'')
         else if float_lt_one backoff
           then Inl (ValueError ''retryBackoffMultiplier must be >= 1'')
         else
           and_then (validate_fallback fallback) (\<lambda>fallback_versions.
           let alerts = (py_lower b (getenv w ''ALERTS_ENABLED'' (pstr ''true''))
                           \<in> set [pstr ''true'', pstr ''1'', pstr ''yes'']);
               app_url = getenv w ''WEB_APP_URL'' (pstr ''http://localhost:4000'')
           in
           and_then (int_of_str b (getenv w ''RPC_PORT'' (py_str b (YInt (rpc_port cc))))) (\<lambda>rpc.
           and_then (int_of_str b (getenv w ''GETADDR_DELAY_MS'' (pstr ''100''))) (\<lambda>getaddr_delay.
             Inr (warned,
                  \<lparr> chain = chain_name, chain_config = cc,
                    supabase_url = getenv w ''SUPABASE_URL'' [],
                    supabase_key = getenv w ''SUPABASE_SERVICE_ROLE_KEY'' [],
                    rpc_host = environ w ''RPC_HOST'', crawler_rpc_port = rpc,
                    rpc_user = environ w ''RPC_USER'', rpc_pass = environ w ''RPC_PASS'',
                    geoip_db_path = geoip_path,
                    interval_minutes = interval, max_concurrent = concurrent,
                    connection_timeout = conn_timeout, extended_timeout = ext_timeout,
                    getaddr_delay_ms = getaddr_delay, prune_after_hours = prune,
                    max_retries = retries, initial_retry_delay = retry_delay,
                    retry_backoff_multiplier = backoff,
                    fallback_protocol_versions = fallback_versions,
                    require_version_for_save = require_version,
                    alerts_enabled = alerts, web_app_url = app_url,
                    alerts_api_key = environ w ''ALERTS_PROCESS_KEY'' \<rparr>))))))))))))))))"

text \<open>
  Python's built-ins on the values the examples below use: decimal integer literals in
  ASCII with an optional sign and surrounding blanks, strings, booleans and \<open>None\<close>, and
  lower-casing of ASCII letters. On these they agree with CPython. A float, a list or a
  mapping is printed as the empty string here, and \<open>float\<close> reads integer literals only.
\<close>

function dec_digits :: "nat \<Rightarrow> pystr" where
  "dec_digits n = (if n < 10 then [48 + n] else dec_digits (n div 10) @ [48 + n mod 10])"
  by pat_completeness auto
termination
  by (relation "measure id") auto

declare dec_digits.simps [simp del]

definition is_blank :: "nat \<Rightarrow> bool" where
  "is_blank c = (c = 32 \<or> (9 \<le> c \<and> c \<le> 13))"

definition strip_blanks :: "pystr \<Rightarrow> pystr" where
  "strip_blanks s = rev (dropWhile is_blank (rev (dropWhile is_blank s)))"

definition digits_value :: "pystr \<Rightarrow> int option" where
  "digits_value ds =
     (if ds = [] then None
      else if list_ex (\<lambda>c. c < 48 \<or> 57 < c) ds then None
      else Some (int (foldl (\<lambda>a c. 10 * a + (c - 48)) 0 ds)))"

definition ascii_int :: "pystr \<Rightarrow> int option" where
  "ascii_int s =
     (case strip_blanks s of
        [] \<Rightarrow> None
      | c # r \<Rightarrow>
          if c = 45 then map_option uminus (digits_value r)
          else if c = 43 then digits_value r
          else digits_value (c # r))"

fun ascii_str :: "yaml \<Rightarrow> pystr" where
  "ascii_str (YInt n) = (if n < 0 then 45 # dec_digits (nat (- n)) else dec_digits (nat n))"
| "ascii_str (YStr s) = s"
| "ascii_str (YBool t) = (if t then pstr ''True'' else pstr ''False'')"
| "ascii_str YNull = pstr ''None''"
| "ascii_str v = []"

definition ascii_builtins :: builtins where
  "ascii_builtins =
     \<lparr> py_str = ascii_str, py_int = ascii_int,
       py_float = (\<lambda>s. map_option (\<lambda>n. Finite (of_int n)) (ascii_int s)),
       py_lower = map (\<lambda>c. if 65 \<le> c \<and> c \<le> 90 then c + 32 else c) \<rparr>"

text \<open>
  A \<open>project.config.yaml\<close> with the chain section of Bitcoin and a given \<open>crawlerConfig\<close>
  section, and a process that finds it, with a given environment and relative paths.
\<close>

definition sample_project_config :: "yaml \<Rightarrow> yaml" where
  "sample_project_config crawler =
     YDict [(''chainConfig'',
             YDict [(''name'', YStr (pstr ''Bitcoin'')), (''ticker'', YStr (pstr ''BTC'')),
                    (''p2pPort'', YInt 8333), (''rpcPort'', YInt 8332),
                    (''protocolVersion'', YInt 70016),
                    (''magicBytes'', YStr (pstr ''f9beb4d9'')),
                    (''dnsSeeds'', YList [YStr (pstr ''seed.bitcoin.sipa.be'')]),
                    (''currentVersion'', YStr (pstr ''27.0.0'')),
                    (''minimumVersion'', YStr (pstr ''0.21.0'')),
                    (''userAgentPatterns'', YList [YStr (pstr ''/Satoshi:([0-9.]+)/'')])]),
            (''crawlerConfig'', crawler)]"

definition sample_world :: "(string \<Rightarrow> pystr option) \<Rightarrow> yaml \<Rightarrow> world" where
  "sample_world env crawler =
     \<lparr> environ = env, chain_yaml = Inr bitcoin_config,
       project_config = Some (sample_project_config crawler),
       is_dir = (\<lambda>p. False), is_abs = (\<lambda>p. False),
       os_path_join = (\<lambda>p q. p @ [47] @ q), project_root = pstr ''/srv/atlas'',
       path_div = (\<lambda>p q. p @ [47] @ q) \<rparr>"

section \<open>Properties of the primitives\<close>

lemma and_then_Inr [simp]: "and_then (Inr x) f = f x"
  by (simp add: and_then_def)

lemma and_then_Inl [simp]: "and_then (Inl e) f = Inl e"
  by (simp add: and_then_def)

lemma length_le_bytes [simp]: "length (le_bytes k n) = k"
  by (induction k arbitrary: n) auto

lemma le_val_le_bytes: "le_val (le_bytes k n) = n mod 256 ^ k"
proof (induction k arbitrary: n)
  case 0
  then show ?case by simp
next
  case (Suc k)
  have "n mod 256 + 256 * (n div 256 mod 256 ^ k) = n mod (256 * 256 ^ k)"
    by (simp add: mod_mult2_eq)
  with Suc show ?case by (simp add: unat_of_nat)
qed

lemma le_val_bound: "le_val bs < 256 ^ length bs"
proof (induction bs)
  case Nil
  then show ?case by simp
next
  case (Cons b bs)
  have "unat b < 256" using unsigned_less [of b] by simp
  with Cons show ?case by simp
qed

lemma unpack_pack_le:
  "0 \<le> n \<Longrightarrow> n < 2 ^ (8 * k) \<Longrightarrow> pack_le k n = Inr (le_bytes k (nat n)) \<and> unpack_le k (le_bytes k (nat n)) = Inr n"
proof -
  assume n: "0 \<le> n" "n < 2 ^ (8 * k)"
  have "(256::nat) ^ k = 2 ^ (8 * k)" by (simp add: power_mult)
  moreover have "nat n < 2 ^ (8 * k)" using n by (simp add: nat_less_iff)
  ultimately have "nat n mod 256 ^ k = nat n" by simp
  with n show ?thesis by (simp add: pack_le_def unpack_le_def le_val_le_bytes)
qed

lemma slice_append_skip: "slice (xs @ ys) (length xs + a) (length xs + b) = slice ys a b"
  by (simp add: slice_def)

lemma slice_prefix: "slice (xs @ ys) 0 (length xs) = xs"
  by (simp add: slice_def)

lemma rstrip_nul_ljust:
  assumes "bs = [] \<or> last bs \<noteq> 0"
  shows "rstrip_nul (ljust n 0 bs) = bs"
proof -
  have "dropWhile (\<lambda>b. b = 0) (replicate m (0::byte) @ rev bs) = rev bs" for m
  proof (induction m)
    case 0
    from assms show ?case by (cases bs rule: rev_cases) auto
  next
    case (Suc m)
    then show ?case by simp
  qed
  then show ?thesis by (simp add: rstrip_nul_def ljust_def)
qed

lemma decode_encode_ascii:
  assumes "list_all (\<lambda>c. c < 128) s"
  shows "encode_ascii s = Inr (map of_nat s) \<and> decode_ascii (map of_nat s) = Inr s"
proof -
  have u: "unat (of_nat c :: byte) = c" if "c < 128" for c
    using that by (simp add: unat_of_nat)
  from assms have "list_all (\<lambda>b. unat b < 128) (map of_nat s :: bytes)"
    by (induction s) (auto simp: u)
  moreover from assms have "map unat (map of_nat s :: bytes) = s"
    by (induction s) (auto simp: u)
  ultimately show ?thesis using assms by (simp add: encode_ascii_def decode_ascii_def)
qed

lemma le_bytes_numeral:
  "le_bytes (numeral k) n = of_nat n # le_bytes (pred_numeral k) (n div 256)"
  by (subst numeral_eq_Suc) simp

lemma frame_slices:
  assumes "length magic = 4" "length c = 12" "length l = 4" "length k = 4"
  shows "take 4 (magic @ c @ l @ k @ p @ r) = magic"
    and "slice (magic @ c @ l @ k @ p @ r) 4 16 = c"
    and "slice (magic @ c @ l @ k @ p @ r) 16 20 = l"
    and "slice (magic @ c @ l @ k @ p @ r) 20 24 = k"
    and "slice (magic @ c @ l @ k @ p @ r) 24 (24 + length p) = p"
    and "drop (24 + length p) (magic @ c @ l @ k @ p @ r) = r"
  using assms by (simp_all add: slice_def)

lemma length_double_sha256 [simp]: "length (double_sha256 H p) = 32"
  by (simp add: double_sha256_def digest_def)

lemma length_checksum: "length (take 4 (double_sha256 H p)) = 4"
  by simp

lemma of_nat_byte_eq_0: "c < 128 \<Longrightarrow> (of_nat c :: byte) = 0 \<longleftrightarrow> c = 0"
proof -
  assume "c < 128"
  then have "unat (of_nat c :: byte) = c" by (simp add: unat_of_nat)
  then show ?thesis by auto
qed

lemma create_message_frame:
  assumes "list_all (\<lambda>c. c < 128) command" and "length payload < 2 ^ 32"
  shows "create_message H magic command payload =
           Inr (magic @ ljust 12 0 (map of_nat command) @ le_bytes 4 (length payload) @
                take 4 (double_sha256 H payload) @ payload)"
proof -
  have "pack_le 4 (int (length payload)) = Inr (le_bytes 4 (length payload))"
    using unpack_pack_le [of "int (length payload)" 4] assms(2) by simp
  then show ?thesis
    using decode_encode_ascii [OF assms(1)] by (simp add: create_message_def)
qed

lemma parse_message_frame:
  assumes mg: "length magic = 4" and lc: "length c = 12" and pl: "length p < 2 ^ 32"
  shows "parse_message H (magic @ c @ le_bytes 4 (length p) @ take 4 (double_sha256 H p) @ p @ r) magic =
           and_then (decode_ascii (rstrip_nul c)) (\<lambda>command. Inr (command, p, r))"
proof -
  let ?l = "le_bytes 4 (length p)"
  let ?k = "take 4 (double_sha256 H p)"
  let ?data = "magic @ c @ ?l @ ?k @ p @ r"
  have up: "unpack_le 4 ?l = Inr (int (length p))"
    using unpack_pack_le [of "int (length p)" 4] pl by simp
  have sl: "take 4 ?data = magic" "slice ?data 4 16 = c"
    "slice ?data 16 20 = ?l" "slice ?data 20 24 = ?k"
    "slice ?data 24 (24 + length p) = p" "drop (24 + length p) ?data = r"
    by (rule frame_slices [OF mg lc length_le_bytes length_checksum])+
  have ln: "length ?data = 24 + length p + length r"
    using mg lc by simp
  have a: "\<not> length ?data < 24" using ln by simp
  have b: "\<not> int (length ?data) < 24 + int (length p)" using ln by simp
  show ?thesis
    by (simp only: parse_message_def Let_def a b sl up and_then_Inr nat_int
        if_False if_True refl simp_thms)
qed

lemma parse_create_message:
  assumes mg: "length magic = 4"
    and asc: "list_all (\<lambda>c. c < 128) command"
    and len: "length command \<le> 12"
    and nul: "command = [] \<or> last command \<noteq> 0"
    and pl: "length payload < 2 ^ 32"
  shows "\<exists>msg. create_message H magic command payload = Inr msg \<and>
           parse_message H (msg @ rest) magic = Inr (command, payload, rest)"
proof -
  let ?c = "ljust 12 0 (map of_nat command :: bytes)"
  let ?msg = "magic @ ?c @ le_bytes 4 (length payload) @ take 4 (double_sha256 H payload) @ payload"
  have lc: "length ?c = 12" using len by (simp add: ljust_def)
  have cm: "create_message H magic command payload = Inr ?msg"
    by (rule create_message_frame [OF asc pl])
  have "(map of_nat command :: bytes) = [] \<or> last (map of_nat command :: bytes) \<noteq> 0"
  proof (cases "command = []")
    case True
    then show ?thesis by simp
  next
    case False
    with nul have "last command \<noteq> 0" by simp
    moreover have "last command < 128" using asc False by (simp add: list_all_iff)
    ultimately show ?thesis using False by (simp add: last_map of_nat_byte_eq_0)
  qed
  then have rs: "rstrip_nul ?c = map of_nat command" by (rule rstrip_nul_ljust)
  have "parse_message H (?msg @ rest) magic =
          and_then (decode_ascii (rstrip_nul ?c)) (\<lambda>command. Inr (command, payload, rest))"
    using parse_message_frame [OF mg lc pl, of H rest] by simp
  then have pm: "parse_message H (?msg @ rest) magic = Inr (command, payload, rest)"
    using decode_encode_ascii [OF asc] by (simp add: rs)
  show ?thesis by (rule exI [of _ ?msg]) (rule conjI [OF cm pm])
qed

section \<open>The message frame: round trip and declared length\<close>

text \<open>
  Claim C1, as the code has it: for every 4-byte magic, every ASCII command of at most 12
  characters that does not end in a NUL character, every payload shorter than \<open>2 ^ 32\<close>
  bytes and every trailing byte string \<open>rest\<close>, \<open>create_message\<close> returns a message, and
  \<open>parse_message\<close> applied to that message followed by \<open>rest\<close>, with the same magic,
  returns exactly \<open>(command, payload, rest)\<close>. The digest function is arbitrary.
\<close>

theorem create_parse_message_roundtrip:
  assumes "length magic = 4"
    and "list_all (\<lambda>c. c < 128) command"
    and "length command \<le> 12"
    and "command = [] \<or> last command \<noteq> 0"
    and "length payload < 2 ^ 32"
  shows "\<exists>msg. create_message H magic command payload = Inr msg \<and>
           parse_message H (msg @ rest) magic = Inr (command, payload, rest)"
  using assms by (rule parse_create_message)

text \<open>The round trip at the command \<open>ping\<close> with an 8-byte payload and two trailing bytes.\<close>

theorem create_parse_message_roundtrip_witness:
  "\<forall>H. \<exists>msg. create_message H [0xf9, 0xbe, 0xb4, 0xd9] (pstr ''ping'') [1, 2, 3, 4, 5, 6, 7, 8] = Inr msg \<and>
     parse_message H (msg @ [0xaa, 0xbb]) [0xf9, 0xbe, 0xb4, 0xd9] =
       Inr (pstr ''ping'', [1, 2, 3, 4, 5, 6, 7, 8], [0xaa, 0xbb])"
proof
  fix H
  show "\<exists>msg. create_message H [0xf9, 0xbe, 0xb4, 0xd9] (pstr ''ping'') [1, 2, 3, 4, 5, 6, 7, 8] = Inr msg \<and>
     parse_message H (msg @ [0xaa, 0xbb]) [0xf9, 0xbe, 0xb4, 0xd9] =
       Inr (pstr ''ping'', [1, 2, 3, 4, 5, 6, 7, 8], [0xaa, 0xbb])"
    by (rule create_parse_message_roundtrip) (simp_all add: pstr_def)
qed

text \<open>
  Claim C1 as stated fails at the one-character ASCII command \<open>"\x00"\<close>: the frame pads
  the command with NUL bytes, \<open>rstrip\<close> removes the command's own NUL with the padding, and
  the parser returns the empty command.
\<close>

theorem trailing_nul_command_counterexample:
  "\<forall>H. \<exists>msg. create_message H [0xf9, 0xbe, 0xb4, 0xd9] [0] [] = Inr msg \<and>
     parse_message H (msg @ []) [0xf9, 0xbe, 0xb4, 0xd9] = Inr ([], [], []) \<and>
     parse_message H (msg @ []) [0xf9, 0xbe, 0xb4, 0xd9] \<noteq> Inr ([0], [], [])"
proof
  fix H
  let ?mg = "[0xf9, 0xbe, 0xb4, 0xd9] :: bytes"
  let ?msg = "?mg @ ljust 12 0 (map of_nat [0::nat]) @ le_bytes 4 (length ([]::bytes)) @
                take 4 (double_sha256 H []) @ []"
  have cm: "create_message H ?mg [0] [] = Inr ?msg"
    by (rule create_message_frame) simp_all
  have "parse_message H (?msg @ []) ?mg =
          and_then (decode_ascii (rstrip_nul (ljust 12 0 (map of_nat [0::nat])))) (\<lambda>command. Inr (command, [], []))"
    using parse_message_frame [of ?mg "ljust 12 0 (map of_nat [0::nat])" "[]" H "[]"]
    by (simp add: ljust_def)
  moreover have "rstrip_nul (ljust 12 0 (map of_nat [0::nat])) = []"
    by (simp add: rstrip_nul_def ljust_def eval_nat_numeral)
  ultimately have pm: "parse_message H (?msg @ []) ?mg = Inr ([], [], [])"
    by (simp add: decode_ascii_def)
  show "\<exists>msg. create_message H ?mg [0] [] = Inr msg \<and>
     parse_message H (msg @ []) ?mg = Inr ([], [], []) \<and>
     parse_message H (msg @ []) ?mg \<noteq> Inr ([0], [], [])"
    by (rule exI [of _ ?msg]) (simp only: cm pm, simp)
qed

lemma parse_message_by_length:
  assumes len: "24 \<le> length data" and mg: "take 4 data = magic"
    and cmd: "decode_ascii (rstrip_nul (slice data 4 16)) = Inr command"
  shows "parse_message H data magic =
    (let n = le_val (slice data 16 20) in
     if length data < 24 + n then Inl (ValueError ''Incomplete message'')
     else if take 4 (double_sha256 H (slice data 24 (24 + n))) \<noteq> slice data 20 24
       then Inl (ValueError ''Invalid checksum'')
     else Inr (command, slice data 24 (24 + n), drop (24 + n) data))"
proof -
  have "length (slice data 16 20) = 4" using len by (simp add: slice_def)
  then have up: "unpack_le 4 (slice data 16 20) = Inr (int (le_val (slice data 16 20)))"
    by (simp add: unpack_le_def)
  have a: "\<not> length data < 24" using len by simp
  have b: "int (length data) < 24 + int n \<longleftrightarrow> length data < 24 + n" for n by linarith
  show ?thesis
    by (simp only: parse_message_def Let_def a mg cmd up b and_then_Inr nat_int
        if_False if_True refl simp_thms)
qed

text \<open>
  Claim C2, as the code has it: \<open>parse_message\<close> has no payload cap. For every buffer of
  at least 24 bytes with the right magic and an ASCII command field whose header declares
  a payload length above 2 MiB, the outcome is decided by the bytes present: the
  incomplete-message error when fewer than the declared bytes follow the header, else the
  checksum error or the parsed triple. No outcome depends on the 2 MiB bound.
\<close>

theorem parse_message_declared_length:
  assumes "24 \<le> length data" and "take 4 data = magic"
    and "decode_ascii (rstrip_nul (slice data 4 16)) = Inr command"
    and "2 * 1024 * 1024 < le_val (slice data 16 20)"
  shows "parse_message H data magic =
    (let n = le_val (slice data 16 20) in
     if length data < 24 + n then Inl (ValueError ''Incomplete message'')
     else if take 4 (double_sha256 H (slice data 24 (24 + n))) \<noteq> slice data 20 24
       then Inl (ValueError ''Invalid checksum'')
     else Inr (command, slice data 24 (24 + n), drop (24 + n) data))"
  using assms(1-3) by (rule parse_message_by_length)

text \<open>A 24-byte \<open>addr\<close> header that declares 2097153 payload bytes and carries none.\<close>

theorem parse_message_declared_length_witness:
  "\<forall>H. le_val (slice [0xf9, 0xbe, 0xb4, 0xd9, 0x61, 0x64, 0x64, 0x72, 0, 0, 0, 0, 0, 0, 0, 0,
                         1, 0, 0x20, 0, 0x5d, 0xf6, 0xe0, 0xe2] 16 20) = 2097153 \<and>
       parse_message H [0xf9, 0xbe, 0xb4, 0xd9, 0x61, 0x64, 0x64, 0x72, 0, 0, 0, 0, 0, 0, 0, 0,
                        1, 0, 0x20, 0, 0x5d, 0xf6, 0xe0, 0xe2] [0xf9, 0xbe, 0xb4, 0xd9] =
         Inl (ValueError ''Incomplete message'')"
proof
  fix H
  let ?data = "[0xf9, 0xbe, 0xb4, 0xd9, 0x61, 0x64, 0x64, 0x72, 0, 0, 0, 0, 0, 0, 0, 0,
                1, 0, 0x20, 0, 0x5d, 0xf6, 0xe0, 0xe2] :: bytes"
  have n: "le_val (slice ?data 16 20) = 2097153" by (simp add: slice_def)
  have c: "decode_ascii (rstrip_nul (slice ?data 4 16)) = Inr (pstr ''addr'')"
    by (simp add: slice_def rstrip_nul_def decode_ascii_def pstr_def)
  have "parse_message H ?data [0xf9, 0xbe, 0xb4, 0xd9] = Inl (ValueError ''Incomplete message'')"
    using parse_message_declared_length [of ?data "[0xf9, 0xbe, 0xb4, 0xd9]" "pstr ''addr''" H] c
    by (simp add: n)
  with n show "le_val (slice ?data 16 20) = 2097153 \<and>
       parse_message H ?data [0xf9, 0xbe, 0xb4, 0xd9] = Inl (ValueError ''Incomplete message'')"
    by (rule conjI)
qed

text \<open>
  Claim C2 as stated fails at the frame \<open>create_message\<close> builds around a payload of
  2097153 zero bytes (one byte above 2 MiB): the buffer has the right magic, declares
  2097153 payload bytes, and \<open>parse_message\<close> returns the payload instead of failing.
\<close>

theorem oversize_payload_accepted_counterexample:
  "\<forall>H. \<exists>buf. create_message H [0xf9, 0xbe, 0xb4, 0xd9] (pstr ''addr'') (replicate 2097153 0) = Inr buf \<and>
      24 \<le> length buf \<and> take 4 buf = [0xf9, 0xbe, 0xb4, 0xd9] \<and>
      unpack_le 4 (slice buf 16 20) = Inr 2097153 \<and> (2097153::int) > 2 * 1024 * 1024 \<and>
      parse_message H buf [0xf9, 0xbe, 0xb4, 0xd9] = Inr (pstr ''addr'', replicate 2097153 0, [])"
proof
  fix H
  let ?mg = "[0xf9, 0xbe, 0xb4, 0xd9] :: bytes"
  let ?p = "replicate 2097153 (0::byte)"
  let ?c = "ljust 12 0 (map of_nat (pstr ''addr'')) :: bytes"
  let ?buf = "?mg @ ?c @ le_bytes 4 (length ?p) @ take 4 (double_sha256 H ?p) @ ?p"
  have asc: "list_all (\<lambda>c. c < 128) (pstr ''addr'')" by (simp add: pstr_def)
  have pl: "length ?p < 2 ^ 32" by simp
  have lc: "length ?c = 12" by (simp add: ljust_def pstr_def)
  have cm: "create_message H ?mg (pstr ''addr'') ?p = Inr ?buf"
    by (rule create_message_frame [OF asc pl])
  obtain msg where m: "create_message H ?mg (pstr ''addr'') ?p = Inr msg"
    and pm: "parse_message H (msg @ []) ?mg = Inr (pstr ''addr'', ?p, [])"
    using parse_create_message [of ?mg "pstr ''addr''" ?p H "[]"] asc
    by (auto simp: pstr_def)
  from m cm have "msg = ?buf" by simp
  with pm have p: "parse_message H ?buf ?mg = Inr (pstr ''addr'', ?p, [])" by simp
  have l: "24 \<le> length ?buf" using lc by simp
  have t: "take 4 ?buf = ?mg" by simp
  have "slice (?buf @ []) 16 20 = le_bytes 4 (length ?p)"
    using frame_slices(3) [of ?mg ?c "le_bytes 4 (length ?p)" "take 4 (double_sha256 H ?p)" ?p "[]"] lc
    by simp
  then have u: "unpack_le 4 (slice ?buf 16 20) = Inr 2097153"
    using unpack_pack_le [of 2097153 4] by simp
  show "\<exists>buf. create_message H ?mg (pstr ''addr'') ?p = Inr buf \<and>
      24 \<le> length buf \<and> take 4 buf = ?mg \<and>
      unpack_le 4 (slice buf 16 20) = Inr 2097153 \<and> (2097153::int) > 2 * 1024 * 1024 \<and>
      parse_message H buf ?mg = Inr (pstr ''addr'', ?p, [])"
    apply (rule exI [of _ ?buf])
    apply (intro conjI)
         apply (rule cm)
        apply (rule l)
       apply (rule t)
      apply (rule u)
     apply simp
    apply (rule p)
    done
qed

lemma length_slice: "b \<le> length xs \<Longrightarrow> length (slice xs a b) = b - a"
  by (simp add: slice_def)

lemma nth_slice: "a + i < b \<Longrightarrow> b \<le> length xs \<Longrightarrow> slice xs a b ! i = xs ! (a + i)"
  by (simp add: slice_def)

lemma inet_ntoa_4:
  assumes "length bs = 4"
  shows "inet_ntoa bs = Inr (dotted_quad (bs ! 0) (bs ! 1) (bs ! 2) (bs ! 3))"
proof -
  from assms obtain a b c d where "bs = [a, b, c, d]"
    by (auto simp: length_Suc_conv eval_nat_numeral)
  then show ?thesis by (simp add: inet_ntoa_def)
qed

lemma inet_ntoa_slice:
  assumes "a + 4 \<le> length xs"
  shows "inet_ntoa (slice xs a (a + 4)) =
           Inr (dotted_quad (xs ! a) (xs ! (a + 1)) (xs ! (a + 2)) (xs ! (a + 3)))"
proof -
  have "length (slice xs a (a + 4)) = 4" using assms by (simp add: length_slice)
  then show ?thesis using assms
    by (simp add: inet_ntoa_4 nth_slice)
qed

lemma unpack_le_slice:
  "a + k \<le> length xs \<Longrightarrow> unpack_le k (slice xs a (a + k)) = Inr (int (le_val (slice xs a (a + k))))"
  by (simp add: unpack_le_def length_slice)

lemma unpack_be_slice:
  "a + k \<le> length xs \<Longrightarrow> unpack_be k (slice xs a (a + k)) = Inr (int (le_val (rev (slice xs a (a + k)))))"
  by (simp add: unpack_be_def length_slice)

lemma unpack_q_slice:
  "a + 8 \<le> length xs \<Longrightarrow> unpack_q (slice xs a (a + 8)) =
     Inr (if le_val (slice xs a (a + 8)) < 2 ^ 63 then int (le_val (slice xs a (a + 8)))
          else int (le_val (slice xs a (a + 8))) - 2 ^ 64)"
  by (simp add: unpack_q_def length_slice)

lemma parse_version_payload_ok:
  assumes len: "85 + unat (payload ! 80) \<le> length payload"
  shows "parse_version_payload payload =
     Inr \<lparr> version = int (le_val (slice payload 0 4)),
           v_services = int (le_val (slice payload 4 12)),
           v_timestamp = (if le_val (slice payload 12 20) < 2 ^ 63 then int (le_val (slice payload 12 20))
                          else int (le_val (slice payload 12 20)) - 2 ^ 64),
           addr_recv = \<lparr> services = int (le_val (slice payload 20 28)),
                         ip = dotted_quad (payload ! 40) (payload ! 41) (payload ! 42) (payload ! 43),
                         port = int (le_val (rev (slice payload 44 46))),
                         timestamp = None \<rparr>,
           addr_from = \<lparr> services = int (le_val (slice payload 46 54)),
                         ip = dotted_quad (payload ! 66) (payload ! 67) (payload ! 68) (payload ! 69),
                         port = int (le_val (rev (slice payload 70 72))),
                         timestamp = None \<rparr>,
           nonce = int (le_val (slice payload 72 80)),
           user_agent = decode_utf8_replace (slice payload 81 (81 + unat (payload ! 80))),
           start_height = int (le_val (slice payload (81 + unat (payload ! 80)) (85 + unat (payload ! 80)))),
           relay = (if 85 + unat (payload ! 80) < length payload
                    then payload ! (85 + unat (payload ! 80)) \<noteq> 0 else True) \<rparr>"
proof -
  let ?n = "unat (payload ! 80)"
  have u1: "unpack_le 4 (slice payload 0 4) = Inr (int (le_val (slice payload 0 4)))"
    using unpack_le_slice [of 0 4 payload] len by simp
  have u2: "unpack_le 8 (slice payload 4 12) = Inr (int (le_val (slice payload 4 12)))"
    using unpack_le_slice [of 4 8 payload] len by simp
  have u3: "unpack_q (slice payload 12 20) =
      Inr (if le_val (slice payload 12 20) < 2 ^ 63 then int (le_val (slice payload 12 20))
           else int (le_val (slice payload 12 20)) - 2 ^ 64)"
    using unpack_q_slice [of 12 payload] len by simp
  have u4: "unpack_le 8 (slice payload 20 28) = Inr (int (le_val (slice payload 20 28)))"
    using unpack_le_slice [of 20 8 payload] len by simp
  have u5: "inet_ntoa (slice payload (28 + 12) (28 + 16)) =
      Inr (dotted_quad (payload ! 40) (payload ! 41) (payload ! 42) (payload ! 43))"
    using inet_ntoa_slice [of 40 payload] len by simp
  have u6: "unpack_be 2 (slice payload 44 46) = Inr (int (le_val (rev (slice payload 44 46))))"
    using unpack_be_slice [of 44 2 payload] len by simp
  have u7: "unpack_le 8 (slice payload 46 54) = Inr (int (le_val (slice payload 46 54)))"
    using unpack_le_slice [of 46 8 payload] len by simp
  have u8: "inet_ntoa (slice payload (54 + 12) (54 + 16)) =
      Inr (dotted_quad (payload ! 66) (payload ! 67) (payload ! 68) (payload ! 69))"
    using inet_ntoa_slice [of 66 payload] len by simp
  have u9: "unpack_be 2 (slice payload 70 72) = Inr (int (le_val (rev (slice payload 70 72))))"
    using unpack_be_slice [of 70 2 payload] len by simp
  have u10: "unpack_le 8 (slice payload 72 80) = Inr (int (le_val (slice payload 72 80)))"
    using unpack_le_slice [of 72 8 payload] len by simp
  have u11: "index_at payload 80 = Inr (payload ! 80)"
    using len by (simp add: index_at_def)
  have e: "81 + ?n + 4 = 85 + ?n" by simp
  have u12: "unpack_le 4 (slice payload (81 + ?n) (85 + ?n)) =
      Inr (int (le_val (slice payload (81 + ?n) (85 + ?n))))"
    using unpack_le_slice [of "81 + ?n" 4 payload] len by (simp add: e)
  show ?thesis
    unfolding parse_version_payload_def
    by (simp only: u1 u2 u3 u4 u5 u6 u7 u8 u9 u10 u11 u12 and_then_Inr Let_def e)
qed

lemma and_then_eq_Inr: "and_then m f = Inr y \<longleftrightarrow> (\<exists>x. m = Inr x \<and> f x = Inr y)"
  by (cases m) auto

lemma pack_le_Inr:
  "pack_le k n = Inr bs \<longleftrightarrow> 0 \<le> n \<and> n < 2 ^ (8 * k) \<and> bs = le_bytes k (nat n)"
  by (auto simp: pack_le_def)

lemma pack_be_Inr:
  "pack_be k n = Inr bs \<longleftrightarrow> 0 \<le> n \<and> n < 2 ^ (8 * k) \<and> bs = rev (le_bytes k (nat n))"
  by (auto simp: pack_be_def)

lemma pack_q_Inr:
  "pack_q n = Inr bs \<longleftrightarrow> - (2 ^ 63) \<le> n \<and> n < 2 ^ 63 \<and> bs = le_bytes 8 (nat (n mod 2 ^ 64))"
  by (auto simp: pack_q_def)

lemma length_inet_pton4: "inet_pton4 s = Inr packed \<Longrightarrow> length packed = 4"
  by (auto simp: inet_pton4_def split: list.splits option.splits)

lemma length_inet_pton6: "inet_pton6 parse6 s = Inr packed \<Longrightarrow> length packed = 16"
  by (auto simp: inet_pton6_def split: option.splits)

lemma inet_pton4_any: "inet_pton4 (pstr ''0.0.0.0'') = Inr [0, 0, 0, 0]"
  by (simp add: inet_pton4_def pstr_def parse_octet_def)

lemma length_recv_ip_field: "recv_ip_field parse6 s = Inr b \<Longrightarrow> length b = 16"
  by (auto simp: recv_ip_field_def and_then_eq_Inr length_inet_pton6 split: if_splits
      dest: length_inet_pton4)

lemma version_payload_shape:
  assumes "version_payload parse6 now rnd cfg rip rport h = Inr p"
  shows "\<exists>uab ipb.
      encode_utf8 ([47] @ name cfg @ pstr ''NodesCrawler:0.1.0/'') = Inr uab \<and>
      length uab < 256 \<and>
      recv_ip_field parse6 rip = Inr ipb \<and>
      0 \<le> protocol_version cfg \<and> protocol_version cfg < 2 ^ 32 \<and>
      0 \<le> rport \<and> rport < 2 ^ 16 \<and> 0 \<le> h \<and> h < 2 ^ 32 \<and>
      p = le_bytes 4 (nat (protocol_version cfg)) @ le_bytes 8 1 @ le_bytes 8 (nat (now mod 2 ^ 64)) @
          le_bytes 8 1 @ ipb @ rev (le_bytes 2 (nat rport)) @
          le_bytes 8 1 @ (replicate 10 0 @ [0xff, 0xff] @ [0, 0, 0, 0]) @ rev (le_bytes 2 0) @
          le_bytes 8 (unat rnd) @ [of_nat (length uab)] @ uab @ le_bytes 4 (nat h) @ [1]"
  using assms
  unfolding version_payload_def Let_def
  by (auto simp: and_then_eq_Inr pack_le_Inr pack_be_Inr pack_q_Inr inet_pton4_any
      SERVICES_NODE_NETWORK_def pack_bool_def eval_nat_numeral(1))

lemma payload_tail_layout:
  assumes "length pre = 80" and "length K = 4"
  shows "(pre @ [l] @ U @ K @ R) ! 80 = l"
    and "slice (pre @ [l] @ U @ K @ R) 81 (81 + length U) = U"
    and "slice (pre @ [l] @ U @ K @ R) (81 + length U) (85 + length U) = K"
    and "drop (85 + length U) (pre @ [l] @ U @ K @ R) = R"
    and "length (pre @ [l] @ U @ K @ R) = 85 + length U + length R"
    and "b \<le> 80 \<Longrightarrow> slice (pre @ [l] @ U @ K @ R) a b = slice pre a b"
    and "i < 80 \<Longrightarrow> (pre @ [l] @ U @ K @ R) ! i = pre ! i"
  using assms by (simp_all add: slice_def nth_append drop_Cons')

lemma payload_head_layout:
  assumes "length A = 4" "length B = 8" "length C = 8" "length D = 8" "length E = 16"
    "length F = 2" "length G = 8" "length Hh = 16" "length I = 2" "length J = 8"
  shows "length (A @ B @ C @ D @ E @ F @ G @ Hh @ I @ J) = 80"
    and "slice (A @ B @ C @ D @ E @ F @ G @ Hh @ I @ J) 0 4 = A"
    and "slice (A @ B @ C @ D @ E @ F @ G @ Hh @ I @ J) 4 12 = B"
    and "slice (A @ B @ C @ D @ E @ F @ G @ Hh @ I @ J) 12 20 = C"
    and "slice (A @ B @ C @ D @ E @ F @ G @ Hh @ I @ J) 20 28 = D"
    and "slice (A @ B @ C @ D @ E @ F @ G @ Hh @ I @ J) 28 44 = E"
    and "slice (A @ B @ C @ D @ E @ F @ G @ Hh @ I @ J) 44 46 = F"
    and "slice (A @ B @ C @ D @ E @ F @ G @ Hh @ I @ J) 46 54 = G"
    and "slice (A @ B @ C @ D @ E @ F @ G @ Hh @ I @ J) 54 70 = Hh"
    and "slice (A @ B @ C @ D @ E @ F @ G @ Hh @ I @ J) 70 72 = I"
    and "slice (A @ B @ C @ D @ E @ F @ G @ Hh @ I @ J) 72 80 = J"
    and "i < 16 \<Longrightarrow> (A @ B @ C @ D @ E @ F @ G @ Hh @ I @ J) ! (28 + i) = E ! i"
    and "i < 16 \<Longrightarrow> (A @ B @ C @ D @ E @ F @ G @ Hh @ I @ J) ! (54 + i) = Hh ! i"
  using assms by (simp_all add: slice_def nth_append)

lemma utf8_replace_1:
  assumes "c < 0x80"
  shows "utf8_replace (utf8_encode_cp c @ rest) = c # utf8_replace rest"
  using assms by (simp add: utf8_encode_cp_def)

lemma utf8_replace_2:
  assumes "0x80 \<le> c" "c < 0x800"
  shows "utf8_replace (utf8_encode_cp c @ rest) = c # utf8_replace rest"
proof -
  define q where "q = c div 64"
  define r where "r = c mod 64"
  have c: "c = q * 64 + r" and r: "r < 64" by (simp_all add: q_def r_def)
  have q: "2 \<le> q" "q < 32" using assms by (simp_all add: q_def)
  have enc: "utf8_encode_cp c = [0xC0 + q, 0x80 + r]"
    using assms by (simp add: utf8_encode_cp_def q_def r_def)
  have "utf8_replace ([0xC0 + q, 0x80 + r] @ rest) = (q * 64 + r) # utf8_replace rest"
    using q r by (simp add: is_cont_def)
  then show ?thesis
    unfolding enc c [symmetric] .
qed

lemma utf8_replace_3:
  assumes "0x800 \<le> c" "c < 0x10000" "utf8_encodable c"
  shows "utf8_replace (utf8_encode_cp c @ rest) = c # utf8_replace rest"
proof -
  define q where "q = c div 4096"
  define r where "r = c div 64 mod 64"
  define s where "s = c mod 64"
  have "c mod (64 * 64) = 64 * (c div 64 mod 64) + c mod 64" by (rule mod_mult2_eq)
  moreover have "c = c div 4096 * 4096 + c mod 4096" by simp
  ultimately have c: "c = q * 4096 + r * 64 + s" unfolding q_def r_def s_def by simp
  have r: "r < 64" and s: "s < 64" by (simp_all add: r_def s_def)
  have q: "q < 16" using assms by (simp add: q_def)
  have lo: "q = 0 \<Longrightarrow> 32 \<le> r" using assms(1) c s by arith
  have sur: "c < 0xD800 \<or> 0xE000 \<le> c"
    using assms(3) by (auto simp: utf8_encodable_def split: if_splits)
  have hi: "q = 13 \<Longrightarrow> r < 32" using sur c r s by arith
  have enc: "utf8_encode_cp c = [0xE0 + q, 0x80 + r, 0x80 + s]"
    using assms by (simp add: utf8_encode_cp_def q_def r_def s_def)
  have ok: "second_ok (0xE0 + q) (0x80 + r)"
    using q r lo hi by (auto simp: second_ok_def is_cont_def)
  have "utf8_replace ([0xE0 + q, 0x80 + r, 0x80 + s] @ rest) =
          (q * 4096 + r * 64 + s) # utf8_replace rest"
    using q s ok by (simp add: is_cont_def)
  then show ?thesis
    unfolding enc c [symmetric] .
qed

lemma utf8_replace_4:
  assumes "0x10000 \<le> c" "c < 0x110000"
  shows "utf8_replace (utf8_encode_cp c @ rest) = c # utf8_replace rest"
proof -
  define q where "q = c div 262144"
  define r where "r = c div 4096 mod 64"
  define s where "s = c div 64 mod 64"
  define t where "t = c mod 64"
  have "c mod (64 * 64) = 64 * (c div 64 mod 64) + c mod 64" by (rule mod_mult2_eq)
  moreover have "c mod (4096 * 64) = 4096 * (c div 4096 mod 64) + c mod 4096"
    by (rule mod_mult2_eq)
  moreover have "c = c div 262144 * 262144 + c mod 262144" by simp
  ultimately have c: "c = q * 262144 + r * 4096 + s * 64 + t"
    unfolding q_def r_def s_def t_def by simp
  have r: "r < 64" and s: "s < 64" and t: "t < 64" by (simp_all add: r_def s_def t_def)
  have q: "q < 5" using assms by (simp add: q_def)
  have lo: "q = 0 \<Longrightarrow> 16 \<le> r" using assms(1) c s t by arith
  have hi: "q = 4 \<Longrightarrow> r < 16" using assms(2) c by arith
  have enc: "utf8_encode_cp c = [0xF0 + q, 0x80 + r, 0x80 + s, 0x80 + t]"
    using assms by (simp add: utf8_encode_cp_def q_def r_def s_def t_def)
  have ok: "second_ok (0xF0 + q) (0x80 + r)"
    using q r lo hi by (auto simp: second_ok_def is_cont_def)
  have "utf8_replace ([0xF0 + q, 0x80 + r, 0x80 + s, 0x80 + t] @ rest) =
          (q * 262144 + r * 4096 + s * 64 + t) # utf8_replace rest"
    using q s t ok by (simp add: is_cont_def)
  then show ?thesis
    unfolding enc c [symmetric] .
qed

lemma utf8_replace_encode_cp:
  assumes "utf8_encodable c"
  shows "utf8_replace (utf8_encode_cp c @ rest) = c # utf8_replace rest"
proof -
  have "c < 0x110000" using assms by (auto simp: utf8_encodable_def split: if_splits)
  then consider "c < 0x80" | "0x80 \<le> c" "c < 0x800" | "0x800 \<le> c" "c < 0x10000"
    | "0x10000 \<le> c" "c < 0x110000" by linarith
  then show ?thesis
    using assms by cases (simp_all add: utf8_replace_1 utf8_replace_2 utf8_replace_3 utf8_replace_4)
qed

lemma utf8_encode_cp_bytes: "utf8_encodable c \<Longrightarrow> list_all (\<lambda>b. b < 256) (utf8_encode_cp c)"
  by (auto simp: utf8_encodable_def utf8_encode_cp_def split: if_splits)

lemma utf8_replace_concat:
  "list_all utf8_encodable s \<Longrightarrow> utf8_replace (concat (map utf8_encode_cp s)) = s"
proof (induction s)
  case Nil
  then show ?case by simp
next
  case (Cons c s)
  then show ?case using utf8_replace_encode_cp [of c] by simp
qed

lemma map_unat_of_nat: "list_all (\<lambda>b. b < 256) xs \<Longrightarrow> map unat (map of_nat xs :: bytes) = xs"
  by (induction xs) (simp_all add: unat_of_nat)

lemma decode_encode_utf8:
  assumes "encode_utf8 s = Inr bs"
  shows "decode_utf8_replace bs = s"
proof -
  from assms have enc: "list_all utf8_encodable s"
    and bs: "bs = map of_nat (concat (map utf8_encode_cp s))"
    by (auto simp: encode_utf8_def split: if_splits)
  from enc have "list_all (\<lambda>b. b < 256) (concat (map utf8_encode_cp s))"
    by (induction s) (simp_all add: utf8_encode_cp_bytes)
  then have "map unat bs = concat (map utf8_encode_cp s)"
    unfolding bs by (rule map_unat_of_nat)
  then show ?thesis
    using enc by (simp only: decode_utf8_replace_def utf8_replace_concat)
qed

lemma le_val_le_bytes_small: "n < 256 ^ k \<Longrightarrow> le_val (le_bytes k n) = n"
  by (simp add: le_val_le_bytes)

lemma signed_roundtrip:
  assumes "- (2 ^ 63) \<le> n" "n < 2 ^ 63"
  shows "(if le_val (le_bytes 8 (nat (n mod 2 ^ 64))) < 2 ^ 63
          then int (le_val (le_bytes 8 (nat (n mod 2 ^ 64))))
          else int (le_val (le_bytes 8 (nat (n mod 2 ^ 64)))) - 2 ^ 64) = (n::int)"
proof -
  have m: "0 \<le> n mod 2 ^ 64" "n mod 2 ^ 64 < 2 ^ 64" by simp_all
  then have "nat (n mod 2 ^ 64) < 256 ^ 8" by (simp add: nat_less_iff)
  then have v: "le_val (le_bytes 8 (nat (n mod 2 ^ 64))) = nat (n mod 2 ^ 64)"
    by (rule le_val_le_bytes_small)
  show ?thesis
    unfolding v
  proof (cases "0 \<le> n")
    case True
    with assms have "n mod 2 ^ 64 = n" by simp
    with True assms show "(if nat (n mod 2 ^ 64) < 2 ^ 63 then int (nat (n mod 2 ^ 64))
          else int (nat (n mod 2 ^ 64)) - 2 ^ 64) = n"
      by (simp add: nat_less_iff)
  next
    case False
    with assms have "(n + 2 ^ 64) mod 2 ^ 64 = n + 2 ^ 64"
      by (intro mod_pos_pos_trivial) simp_all
    then have "n mod 2 ^ 64 = n + 2 ^ 64" by simp
    with False assms show "(if nat (n mod 2 ^ 64) < 2 ^ 63 then int (nat (n mod 2 ^ 64))
          else int (nat (n mod 2 ^ 64)) - 2 ^ 64) = n"
      by (simp add: nat_less_iff)
  qed
qed

lemma dotted_quad_zero: "dotted_quad 0 0 0 0 = pstr ''0.0.0.0''"
  by (simp add: dotted_quad_def dec_octet_def pstr_def)

lemma parse_built_version_payload:
  assumes "version_payload parse6 now rnd cfg rip rport h = Inr p"
  shows "\<exists>ipb. recv_ip_field parse6 rip = Inr ipb \<and>
     parse_version_payload p =
       Inr \<lparr> version = protocol_version cfg, v_services = 1, v_timestamp = now,
             addr_recv = \<lparr> services = 1,
                           ip = dotted_quad (ipb ! 12) (ipb ! 13) (ipb ! 14) (ipb ! 15),
                           port = rport, timestamp = None \<rparr>,
             addr_from = \<lparr> services = 1, ip = pstr ''0.0.0.0'', port = 0, timestamp = None \<rparr>,
             nonce = uint rnd,
             user_agent = [47] @ name cfg @ pstr ''NodesCrawler:0.1.0/'',
             start_height = h, relay = True \<rparr>"
proof -
  let ?ua = "[47] @ name cfg @ pstr ''NodesCrawler:0.1.0/''"
  from version_payload_shape [OF assms] obtain uab ipb where
    enc: "encode_utf8 ?ua = Inr uab" and ul: "length uab < 256"
    and ipf: "recv_ip_field parse6 rip = Inr ipb"
    and pv: "0 \<le> protocol_version cfg" "protocol_version cfg < 2 ^ 32"
    and rp: "0 \<le> rport" "rport < 2 ^ 16" and hh: "0 \<le> h" "h < 2 ^ 32"
    and p: "p = le_bytes 4 (nat (protocol_version cfg)) @ le_bytes 8 1 @ le_bytes 8 (nat (now mod 2 ^ 64)) @
          le_bytes 8 1 @ ipb @ rev (le_bytes 2 (nat rport)) @
          le_bytes 8 1 @ (replicate 10 0 @ [0xff, 0xff] @ [0, 0, 0, 0]) @ rev (le_bytes 2 0) @
          le_bytes 8 (unat rnd) @ [of_nat (length uab)] @ uab @ le_bytes 4 (nat h) @ [1]"
    by blast
  have now: "- (2 ^ 63) \<le> now" "now < 2 ^ 63"
    using assms by (auto simp: version_payload_def Let_def and_then_eq_Inr pack_q_Inr)
  let ?A = "le_bytes 4 (nat (protocol_version cfg))"
  let ?B = "le_bytes 8 1"
  let ?C = "le_bytes 8 (nat (now mod 2 ^ 64))"
  let ?F = "rev (le_bytes 2 (nat rport))"
  let ?Hh = "replicate 10 0 @ [0xff, 0xff] @ [0, 0, 0, 0] :: bytes"
  let ?I = "rev (le_bytes 2 0)"
  let ?J = "le_bytes 8 (unat rnd)"
  let ?K = "le_bytes 4 (nat h)"
  let ?l = "of_nat (length uab) :: byte"
  let ?pre = "?A @ ?B @ ?C @ ?B @ ipb @ ?F @ ?B @ ?Hh @ ?I @ ?J"
  have li: "length ipb = 16" using ipf by (rule length_recv_ip_field)
  have lh: "length ?Hh = 16" by simp
  have lF: "length ?F = 2" and lI: "length ?I = 2" by simp_all
  note hd = payload_head_layout [where A = ?A and B = ?B and C = ?C and D = ?B and E = ipb and F = ?F
      and G = ?B and Hh = ?Hh and I = ?I and J = ?J,
      OF length_le_bytes length_le_bytes length_le_bytes length_le_bytes li lF length_le_bytes lh lI
         length_le_bytes]
  have pp: "p = ?pre @ [?l] @ uab @ ?K @ [1]" unfolding p by simp
  note tl = payload_tail_layout [where pre = ?pre and K = ?K and l = ?l and U = uab and R = "[1]", OF hd(1) length_le_bytes, folded pp]
  have n: "unat (p ! 80) = length uab" using ul by (simp add: tl(1) unat_of_nat)
  have len: "85 + unat (p ! 80) \<le> length p" by (simp add: n tl(5))
  have s1: "slice p 0 4 = ?A" using tl(6) [of 4 0] hd(2) by simp
  have s2: "slice p 4 12 = ?B" using tl(6) [of 12 4] hd(3) by simp
  have s3: "slice p 12 20 = ?C" using tl(6) [of 20 12] hd(4) by simp
  have s4: "slice p 20 28 = ?B" using tl(6) [of 28 20] hd(5) by simp
  have s6: "slice p 44 46 = ?F" using tl(6) [of 46 44] hd(7) by simp
  have s7: "slice p 46 54 = ?B" using tl(6) [of 54 46] hd(8) by simp
  have s9: "slice p 70 72 = ?I" using tl(6) [of 72 70] hd(10) by simp
  have s10: "slice p 72 80 = ?J" using tl(6) [of 80 72] hd(11) by simp
  have f1: "int (le_val (slice p 0 4)) = protocol_version cfg"
    using pv by (simp add: s1 le_val_le_bytes nat_less_iff)
  have f2: "int (le_val (slice p 4 12)) = 1" by (simp add: s2 le_val_le_bytes)
  have f3: "(if le_val (slice p 12 20) < 2 ^ 63 then int (le_val (slice p 12 20))
             else int (le_val (slice p 12 20)) - 2 ^ 64) = now"
    unfolding s3 by (rule signed_roundtrip [OF now])
  have f4: "int (le_val (slice p 20 28)) = 1" by (simp add: s4 le_val_le_bytes)
  have f5: "p ! 40 = ipb ! 12" "p ! 41 = ipb ! 13" "p ! 42 = ipb ! 14" "p ! 43 = ipb ! 15"
    using hd(12) [of 12] hd(12) [of 13] hd(12) [of 14] hd(12) [of 15]
      tl(7) [of 40] tl(7) [of 41] tl(7) [of 42] tl(7) [of 43] by simp_all
  have f6: "int (le_val (rev (slice p 44 46))) = rport"
    using rp by (simp add: s6 le_val_le_bytes nat_less_iff)
  have f7: "int (le_val (slice p 46 54)) = 1" by (simp add: s7 le_val_le_bytes)
  have f8: "p ! 66 = 0" "p ! 67 = 0" "p ! 68 = 0" "p ! 69 = 0"
    using hd(13) [of 12] hd(13) [of 13] hd(13) [of 14] hd(13) [of 15]
      tl(7) [of 66] tl(7) [of 67] tl(7) [of 68] tl(7) [of 69]
    by (simp_all add: nth_append)
  have f9: "int (le_val (rev (slice p 70 72))) = 0"
    by (simp add: s9 le_val_le_bytes)
  have "unat rnd < 2 ^ 64" using unsigned_less [of rnd] by simp
  then have f10: "int (le_val (slice p 72 80)) = uint rnd"
    by (simp add: s10 le_val_le_bytes)
  have f11: "decode_utf8_replace (slice p 81 (81 + unat (p ! 80))) = ?ua"
    using decode_encode_utf8 [OF enc] by (simp only: n tl(2))
  have f12: "int (le_val (slice p (81 + unat (p ! 80)) (85 + unat (p ! 80)))) = h"
    using hh by (simp add: n tl(3) le_val_le_bytes nat_less_iff)
  have "p ! (85 + length uab) = 1"
    using tl(4) by (simp add: nth_via_drop)
  then have f13: "(if 85 + unat (p ! 80) < length p then p ! (85 + unat (p ! 80)) \<noteq> 0 else True) = True"
    by (simp add: n tl(5))
  have "parse_version_payload p =
       Inr \<lparr> version = protocol_version cfg, v_services = 1, v_timestamp = now,
             addr_recv = \<lparr> services = 1,
                           ip = dotted_quad (ipb ! 12) (ipb ! 13) (ipb ! 14) (ipb ! 15),
                           port = rport, timestamp = None \<rparr>,
             addr_from = \<lparr> services = 1, ip = pstr ''0.0.0.0'', port = 0, timestamp = None \<rparr>,
             nonce = uint rnd, user_agent = ?ua, start_height = h, relay = True \<rparr>"
    by (simp only: parse_version_payload_ok [OF len] f1 f2 f3 f4 f5 f6 f7 f8 f9 f10 f11 f12 f13
        dotted_quad_zero)
  with ipf show ?thesis by (intro exI conjI)
qed

lemma version_payload_ok:
  assumes enc: "encode_utf8 ([47] @ name cfg @ pstr ''NodesCrawler:0.1.0/'') = Inr uab"
    and ul: "length uab < 256"
    and ipf: "recv_ip_field parse6 rip = Inr ipb"
    and pv: "0 \<le> protocol_version cfg" "protocol_version cfg < 2 ^ 32"
    and now: "- (2 ^ 63) \<le> now" "now < 2 ^ 63"
    and rp: "0 \<le> rport" "rport < 2 ^ 16"
    and hh: "0 \<le> h" "h < 2 ^ 32"
  shows "version_payload parse6 now rnd cfg rip rport h =
     Inr (le_bytes 4 (nat (protocol_version cfg)) @ le_bytes 8 1 @ le_bytes 8 (nat (now mod 2 ^ 64)) @
          le_bytes 8 1 @ ipb @ rev (le_bytes 2 (nat rport)) @
          le_bytes 8 1 @ (replicate 10 0 @ [0xff, 0xff] @ [0, 0, 0, 0]) @ rev (le_bytes 2 0) @
          le_bytes 8 (unat rnd) @ [of_nat (length uab)] @ uab @ le_bytes 4 (nat h) @ [1])"
proof -
  have r: "0 \<le> uint rnd" "uint rnd < 2 ^ 64" using uint_lt2p [of rnd] by simp_all
  have p1: "pack_le 4 (protocol_version cfg) = Inr (le_bytes 4 (nat (protocol_version cfg)))"
    using pv by (simp add: pack_le_def)
  have p2: "pack_le 8 SERVICES_NODE_NETWORK = Inr (le_bytes 8 1)"
    by (simp add: pack_le_def SERVICES_NODE_NETWORK_def)
  have p3: "pack_q now = Inr (le_bytes 8 (nat (now mod 2 ^ 64)))"
    using now by (simp add: pack_q_def)
  have p4: "pack_be 2 rport = Inr (rev (le_bytes 2 (nat rport)))"
    using rp by (simp add: pack_be_def)
  have p5: "pack_be 2 0 = Inr (rev (le_bytes 2 0))" by (simp add: pack_be_def)
  have p6: "pack_le 8 (uint rnd) = Inr (le_bytes 8 (unat rnd))"
    using r by (simp add: pack_le_def)
  have p7: "pack_le 1 (int (length uab)) = Inr [of_nat (length uab)]"
    using ul by (simp add: pack_le_def)
  have p8: "pack_le 4 h = Inr (le_bytes 4 (nat h))" using hh by (simp add: pack_le_def)
  show ?thesis
    unfolding version_payload_def Let_def
    by (simp only: enc ipf p1 p2 p3 p4 p5 p6 p7 p8 inet_pton4_any and_then_Inr pack_bool_def if_True)
qed

lemma ascii_version: "list_all (\<lambda>c. c < 128) (pstr ''version'')"
  by (simp add: pstr_def)

lemma create_version_message_shape:
  assumes "create_version_message H parse6 now rnd cfg rip rport h = Inr msg"
  shows "\<exists>p. version_payload parse6 now rnd cfg rip rport h = Inr p \<and>
             create_message H (magic_bytes cfg) (pstr ''version'') p = Inr msg \<and>
             msg = magic_bytes cfg @ ljust 12 0 (map of_nat (pstr ''version'')) @
                   le_bytes 4 (length p) @ take 4 (double_sha256 H p) @ p"
proof -
  from assms obtain p where p: "version_payload parse6 now rnd cfg rip rport h = Inr p"
    and m: "create_message H (magic_bytes cfg) (pstr ''version'') p = Inr msg"
    by (auto simp: create_version_message_def and_then_eq_Inr)
  from version_payload_shape [OF p] obtain uab ipb where ul: "length uab < 256"
    and ipf: "recv_ip_field parse6 rip = Inr ipb"
    and pe: "p = le_bytes 4 (nat (protocol_version cfg)) @ le_bytes 8 1 @ le_bytes 8 (nat (now mod 2 ^ 64)) @
          le_bytes 8 1 @ ipb @ rev (le_bytes 2 (nat rport)) @
          le_bytes 8 1 @ (replicate 10 0 @ [0xff, 0xff] @ [0, 0, 0, 0]) @ rev (le_bytes 2 0) @
          le_bytes 8 (unat rnd) @ [of_nat (length uab)] @ uab @ le_bytes 4 (nat h) @ [1]"
    by blast
  have "length p = 86 + length uab"
    unfolding pe using length_recv_ip_field [OF ipf] by simp
  with ul have "length p < 2 ^ 32" by simp
  from create_message_frame [OF ascii_version this, of H "magic_bytes cfg"] m p
  show ?thesis by simp
qed

lemma encode_utf8_ascii:
  assumes "list_all (\<lambda>c. c < 128) s"
  shows "encode_utf8 s = Inr (map of_nat s)"
proof -
  from assms have "list_all utf8_encodable s"
    by (induction s) (simp_all add: utf8_encodable_def)
  moreover from assms have "concat (map utf8_encode_cp s) = s"
    by (induction s) (simp_all add: utf8_encode_cp_def)
  ultimately show ?thesis by (simp add: encode_utf8_def)
qed

lemma utf8_replace_ascii: "list_all (\<lambda>b. b < 128) xs \<Longrightarrow> utf8_replace xs = xs"
  by (induction xs) simp_all

lemma create_version_message_ok:
  assumes enc: "encode_utf8 ([47] @ name cfg @ pstr ''NodesCrawler:0.1.0/'') = Inr uab"
    and ul: "length uab < 256"
    and ipf: "recv_ip_field parse6 rip = Inr ipb"
    and pv: "0 \<le> protocol_version cfg" "protocol_version cfg < 2 ^ 32"
    and now: "- (2 ^ 63) \<le> now" "now < 2 ^ 63"
    and rp: "0 \<le> rport" "rport < 2 ^ 16"
    and hh: "0 \<le> h" "h < 2 ^ 32"
  shows "\<exists>msg. create_version_message H parse6 now rnd cfg rip rport h = Inr msg"
proof -
  let ?p = "le_bytes 4 (nat (protocol_version cfg)) @ le_bytes 8 1 @ le_bytes 8 (nat (now mod 2 ^ 64)) @
          le_bytes 8 1 @ ipb @ rev (le_bytes 2 (nat rport)) @
          le_bytes 8 1 @ (replicate 10 0 @ [0xff, 0xff] @ [0, 0, 0, 0]) @ rev (le_bytes 2 0) @
          le_bytes 8 (unat rnd) @ [of_nat (length uab)] @ uab @ le_bytes 4 (nat h) @ [1]"
  have p: "version_payload parse6 now rnd cfg rip rport h = Inr ?p"
    by (rule version_payload_ok [OF assms])
  have "length ?p = 86 + length uab" using length_recv_ip_field [OF ipf] by simp
  with ul have "length ?p < 2 ^ 32" by simp
  from create_message_frame [OF ascii_version this, of H "magic_bytes cfg"]
  show ?thesis unfolding create_version_message_def p and_then_Inr by blast
qed

lemma bitcoin_user_agent:
  "encode_utf8 ([47] @ name bitcoin_config @ pstr ''NodesCrawler:0.1.0/'') =
     Inr (map of_nat ([47] @ name bitcoin_config @ pstr ''NodesCrawler:0.1.0/''))"
  by (rule encode_utf8_ascii) (simp add: bitcoin_config_def pstr_def)

lemma recv_ip_field_ipv4_sample:
  "recv_ip_field parse6 (pstr ''1.2.3.4'') = Inr (replicate 10 0 @ [0xff, 0xff] @ [1, 2, 3, 4])"
  by (simp add: recv_ip_field_def pstr_def inet_pton4_def parse_octet_def)

lemma recv_ip_field_ipv6_sample:
  "recv_ip_field inet_pton6_sample (pstr ''2001:db8::1'') =
     Inr [0x20, 0x01, 0x0d, 0xb8, 0, 0, 0, 0, 0, 0, 0, 0, 0, 0, 0, 1]"
  by (simp add: recv_ip_field_def pstr_def inet_pton6_def inet_pton6_sample_def le_bytes_numeral)

section \<open>The version payload: relay flag, receiver address, user agent\<close>

text \<open>
  The relay flag where the user agent's length is the single byte at offset 80, which is
  how \<open>parse_version_payload\<close> reads it: \<open>relay = True\<close> for a payload that ends after
  these 80 fixed bytes, the length byte, that many bytes of user agent and 4 bytes of start
  height, and the truth value of the next byte when there is one. Every message
  \<open>create_version_message\<close> returns, whatever the configured protocol version, ends with
  the relay byte \<open>0x01\<close>, which the parser reads back as \<open>True\<close>.
\<close>

lemma relay_flag_length_byte:
  "(length payload = 85 + unat (payload ! 80) \<longrightarrow>
      (\<exists>v. parse_version_payload payload = Inr v \<and> relay v)) \<and>
   (85 + unat (payload ! 80) < length payload \<longrightarrow>
      (\<exists>v. parse_version_payload payload = Inr v \<and>
           relay v = (payload ! (85 + unat (payload ! 80)) \<noteq> 0))) \<and>
   (create_version_message H parse6 now rnd cfg rip rport h = Inr msg \<longrightarrow>
      last msg = 1 \<and>
      (\<exists>p v. version_payload parse6 now rnd cfg rip rport h = Inr p \<and> last p = 1 \<and>
             parse_version_payload p = Inr v \<and> relay v))"
proof -
  have a: "length payload = 85 + unat (payload ! 80) \<longrightarrow>
      (\<exists>v. parse_version_payload payload = Inr v \<and> relay v)"
  proof
    assume e: "length payload = 85 + unat (payload ! 80)"
    then have "85 + unat (payload ! 80) \<le> length payload" by simp
    from parse_version_payload_ok [OF this] e
    show "\<exists>v. parse_version_payload payload = Inr v \<and> relay v" by simp
  qed
  have b: "85 + unat (payload ! 80) < length payload \<longrightarrow>
      (\<exists>v. parse_version_payload payload = Inr v \<and>
           relay v = (payload ! (85 + unat (payload ! 80)) \<noteq> 0))"
  proof
    assume l: "85 + unat (payload ! 80) < length payload"
    then have "85 + unat (payload ! 80) \<le> length payload" by simp
    from parse_version_payload_ok [OF this] l
    show "\<exists>v. parse_version_payload payload = Inr v \<and>
           relay v = (payload ! (85 + unat (payload ! 80)) \<noteq> 0)" by simp
  qed
  have c: "create_version_message H parse6 now rnd cfg rip rport h = Inr msg \<longrightarrow>
      last msg = 1 \<and>
      (\<exists>p v. version_payload parse6 now rnd cfg rip rport h = Inr p \<and> last p = 1 \<and>
             parse_version_payload p = Inr v \<and> relay v)"
  proof
    assume c: "create_version_message H parse6 now rnd cfg rip rport h = Inr msg"
    from create_version_message_shape [OF c] obtain p where
      p: "version_payload parse6 now rnd cfg rip rport h = Inr p"
      and msg: "msg = magic_bytes cfg @ ljust 12 0 (map of_nat (pstr ''version'')) @
                     le_bytes 4 (length p) @ take 4 (double_sha256 H p) @ p"
      by blast
    from version_payload_shape [OF p] have lp: "last p = 1" and ne: "p \<noteq> []" by auto
    from parse_built_version_payload [OF p] obtain v where
      v: "parse_version_payload p = Inr v" "relay v" by auto
    have "last msg = 1" unfolding msg using lp ne by simp
    with p lp v show "last msg = 1 \<and>
        (\<exists>p v. version_payload parse6 now rnd cfg rip rport h = Inr p \<and> last p = 1 \<and>
               parse_version_payload p = Inr v \<and> relay v)" by blast
  qed
  show ?thesis by (intro conjI a b c)
qed

text \<open>
  The three parts at concrete inputs: a payload with a two-byte user agent and no relay
  byte, the same payload followed by a zero relay byte, and the version message for the
  receiver \<open>1.2.3.4:8333\<close>.
\<close>

lemma relay_flag_length_byte_sample:
  "(\<exists>v. parse_version_payload (replicate 80 0 @ [2, 0x2f, 0x2f, 1, 0, 0, 0]) = Inr v \<and> relay v) \<and>
   (\<exists>v. parse_version_payload (replicate 80 0 @ [2, 0x2f, 0x2f, 1, 0, 0, 0, 0]) = Inr v \<and>
        relay v = False) \<and>
   (\<forall>H. \<exists>msg. create_version_message H inet_pton6_sample 1700000000 42 bitcoin_config
                 (pstr ''1.2.3.4'') 8333 0 = Inr msg \<and> last msg = 1)"
proof (intro conjI allI)
  let ?P1 = "replicate 80 0 @ [2, 0x2f, 0x2f, 1, 0, 0, 0] :: bytes"
  have "?P1 ! 80 = 2" by (simp add: nth_append)
  then have "length ?P1 = 85 + unat (?P1 ! 80)" by simp
  with relay_flag_length_byte [of ?P1]
  show "\<exists>v. parse_version_payload ?P1 = Inr v \<and> relay v" by blast
next
  let ?P2 = "replicate 80 0 @ [2, 0x2f, 0x2f, 1, 0, 0, 0, 0] :: bytes"
  have n: "?P2 ! 80 = 2" by (simp add: nth_append)
  then have l: "85 + unat (?P2 ! 80) < length ?P2" by simp
  have "?P2 ! (85 + unat (?P2 ! 80)) = 0" unfolding n by (simp add: nth_append)
  with relay_flag_length_byte [of ?P2] l
  show "\<exists>v. parse_version_payload ?P2 = Inr v \<and> relay v = False" by auto
next
  fix H
  have "\<exists>msg. create_version_message H inet_pton6_sample 1700000000 42 bitcoin_config
                 (pstr ''1.2.3.4'') 8333 0 = Inr msg"
    by (rule create_version_message_ok [OF bitcoin_user_agent _ recv_ip_field_ipv4_sample])
      (simp_all add: bitcoin_config_def pstr_def)
  then obtain msg where m: "create_version_message H inet_pton6_sample 1700000000 42 bitcoin_config
                 (pstr ''1.2.3.4'') 8333 0 = Inr msg" ..
  with relay_flag_length_byte [of _ H inet_pton6_sample 1700000000 42 bitcoin_config "pstr ''1.2.3.4''" 8333 0 msg]
  have "last msg = 1" by blast
  with m show "\<exists>msg. create_version_message H inet_pton6_sample 1700000000 42 bitcoin_config
                 (pstr ''1.2.3.4'') 8333 0 = Inr msg \<and> last msg = 1" by blast
qed

text \<open>
  Claim C5 at two payloads whose user agent is 256 bytes long, its length written as the
  varint \<open>FD 00 01\<close>. The first ends right after \<open>start_height\<close>: \<open>read_varint\<close> puts the
  user agent at offsets 83 to 338 and the payload is 83 + 256 + 4 bytes long, with no relay
  byte; \<open>parse_version_payload\<close> returns \<open>relay = False\<close>. The second carries the relay
  byte 0 after \<open>start_height\<close>; \<open>parse_version_payload\<close> returns \<open>relay = True\<close>. In both
  the parser takes the byte \<open>0xFD\<close> alone as the length and reads the flag from offset 338,
  the last byte of the user agent.
\<close>

theorem relay_flag_varint_divergence:
  "read_varint (replicate 80 0 @ [0xFD, 0x00, 0x01] @ replicate 256 0 @ [1, 0, 0, 0]) 80
     = Inr (256, 83) \<and>
   length (replicate 80 0 @ [0xFD, 0x00, 0x01] @ replicate 256 0 @ [1, 0, 0, 0] :: bytes)
     = 83 + 256 + 4 \<and>
   (\<exists>v. parse_version_payload (replicate 80 0 @ [0xFD, 0x00, 0x01] @ replicate 256 0 @ [1, 0, 0, 0])
          = Inr v \<and> relay v = False) \<and>
   read_varint (replicate 80 0 @ [0xFD, 0x00, 0x01] @ replicate 256 0x41 @ [1, 0, 0, 0] @ [0]) 80
     = Inr (256, 83) \<and>
   length (replicate 80 0 @ [0xFD, 0x00, 0x01] @ replicate 256 0x41 @ [1, 0, 0, 0] @ [0] :: bytes)
     = 83 + 256 + 4 + 1 \<and>
   (replicate 80 0 @ [0xFD, 0x00, 0x01] @ replicate 256 0x41 @ [1, 0, 0, 0] @ [0] :: bytes)
     ! (83 + 256 + 4) = 0 \<and>
   (\<exists>v. parse_version_payload
          (replicate 80 0 @ [0xFD, 0x00, 0x01] @ replicate 256 0x41 @ [1, 0, 0, 0] @ [0])
          = Inr v \<and> relay v = True)"
proof -
  let ?P = "replicate 80 0 @ [0xFD, 0x00, 0x01] @ replicate 256 0 @ [1, 0, 0, 0] :: bytes"
  let ?Q = "replicate 80 0 @ [0xFD, 0x00, 0x01] @ replicate 256 0x41 @ [1, 0, 0, 0] @ [0] :: bytes"
  have pn: "?P ! 80 = 0xFD" by (simp add: nth_append)
  have qn: "?Q ! 80 = 0xFD" by (simp add: nth_append)
  have pia: "index_at ?P 80 = Inr 0xFD" using pn by (simp add: index_at_def)
  have qia: "index_at ?Q 80 = Inr 0xFD" using qn by (simp add: index_at_def)
  have psl: "slice ?P (80 + 1) (80 + 3) = [0, 1]" by (simp add: slice_def)
  have qsl: "slice ?Q (80 + 1) (80 + 3) = [0, 1]" by (simp add: slice_def)
  have p1: "read_varint ?P 80 = Inr (256, 83)"
    unfolding read_varint_def pia and_then_Inr using psl by (simp add: unpack_le_def)
  have q1: "read_varint ?Q 80 = Inr (256, 83)"
    unfolding read_varint_def qia and_then_Inr using qsl by (simp add: unpack_le_def)
  have p2: "length ?P = 83 + 256 + 4" by simp
  have q2: "length ?Q = 83 + 256 + 4 + 1" by simp
  have q3: "?Q ! (83 + 256 + 4) = 0" by (simp add: nth_append)
  have plen: "85 + unat (?P ! 80) \<le> length ?P" unfolding pn by simp
  have qlen: "85 + unat (?Q ! 80) \<le> length ?Q" unfolding qn by simp
  have pl: "85 + unat (?P ! 80) < length ?P" unfolding pn by simp
  have ql: "85 + unat (?Q ! 80) < length ?Q" unfolding qn by simp
  have pb: "?P ! (85 + unat (?P ! 80)) = 0" unfolding pn by (simp add: nth_append)
  have qb: "?Q ! (85 + unat (?Q ! 80)) = 0x41" unfolding qn by (simp add: nth_append)
  have p3: "\<exists>v. parse_version_payload ?P = Inr v \<and> relay v = False"
    unfolding parse_version_payload_ok [OF plen] using pl pb by simp
  have q4: "\<exists>v. parse_version_payload ?Q = Inr v \<and> relay v = True"
    unfolding parse_version_payload_ok [OF qlen] using ql qb by simp
  show ?thesis by (intro conjI p1 p2 p3 q1 q2 q3 q4)
qed

text \<open>
  Claim C3 at the native IPv6 receiver \<open>2001:db8::1\<close>, port 8333: the message is built
  and framed, \<open>parse_message\<close> returns its payload, and \<open>parse_version_payload\<close> reads
  the receiver address back as \<open>0.0.0.1\<close>, the dotted quad of the last four bytes of the
  IPv6 address, not the address that was sent. The port is recovered.
\<close>

theorem version_roundtrip_ipv6_divergence:
  "\<forall>H. \<exists>msg p v.
     create_version_message H inet_pton6_sample 1700000000 42 bitcoin_config
       (pstr ''2001:db8::1'') 8333 0 = Inr msg \<and>
     parse_message H msg (magic_bytes bitcoin_config) = Inr (pstr ''version'', p, []) \<and>
     parse_version_payload p = Inr v \<and>
     ip (addr_recv v) = pstr ''0.0.0.1'' \<and> port (addr_recv v) = 8333"
proof
  fix H
  let ?rip = "pstr ''2001:db8::1''"
  have "\<exists>msg. create_version_message H inet_pton6_sample 1700000000 42 bitcoin_config ?rip 8333 0
          = Inr msg"
    by (rule create_version_message_ok [OF bitcoin_user_agent _ recv_ip_field_ipv6_sample])
      (simp_all add: bitcoin_config_def pstr_def)
  then obtain msg where m: "create_version_message H inet_pton6_sample 1700000000 42
      bitcoin_config ?rip 8333 0 = Inr msg" ..
  from create_version_message_shape [OF m] obtain p where
    p: "version_payload inet_pton6_sample 1700000000 42 bitcoin_config ?rip 8333 0 = Inr p"
    and cm: "create_message H (magic_bytes bitcoin_config) (pstr ''version'') p = Inr msg"
    by blast
  from version_payload_shape [OF p] obtain uab ipb where ul: "length uab < 256"
    and ipf: "recv_ip_field inet_pton6_sample ?rip = Inr ipb"
    and pe: "p = le_bytes 4 (nat (protocol_version bitcoin_config)) @ le_bytes 8 1 @
          le_bytes 8 (nat (1700000000 mod 2 ^ 64)) @
          le_bytes 8 1 @ ipb @ rev (le_bytes 2 (nat 8333)) @
          le_bytes 8 1 @ (replicate 10 0 @ [0xff, 0xff] @ [0, 0, 0, 0]) @ rev (le_bytes 2 0) @
          le_bytes 8 (unat (42 :: 64 word)) @ [of_nat (length uab)] @ uab @ le_bytes 4 (nat 0) @ [1]"
    by blast
  have "length p = 86 + length uab"
    unfolding pe using length_recv_ip_field [OF ipf] by simp
  with ul have lp: "length p < 2 ^ 32" by simp
  have "\<exists>msg'. create_message H (magic_bytes bitcoin_config) (pstr ''version'') p = Inr msg' \<and>
      parse_message H (msg' @ []) (magic_bytes bitcoin_config) = Inr (pstr ''version'', p, [])"
    by (rule parse_create_message [OF _ ascii_version _ _ lp])
      (simp_all add: bitcoin_config_def pstr_def)
  with cm have pm: "parse_message H msg (magic_bytes bitcoin_config) = Inr (pstr ''version'', p, [])"
    by auto
  from parse_built_version_payload [OF p] obtain ipb' v where
    i: "recv_ip_field inet_pton6_sample ?rip = Inr ipb'"
    and v: "parse_version_payload p = Inr v"
    and a: "ip (addr_recv v) = dotted_quad (ipb' ! 12) (ipb' ! 13) (ipb' ! 14) (ipb' ! 15)"
      "port (addr_recv v) = 8333"
    by auto
  from i have "ipb' = [0x20, 0x01, 0x0d, 0xb8, 0, 0, 0, 0, 0, 0, 0, 0, 0, 0, 0, 1]"
    by (simp add: recv_ip_field_ipv6_sample)
  with a have "ip (addr_recv v) = pstr ''0.0.0.1''"
    by (simp add: dotted_quad_def dec_octet_def pstr_def)
  with m pm v a(2)
  show "\<exists>msg p v.
     create_version_message H inet_pton6_sample 1700000000 42 bitcoin_config ?rip 8333 0 = Inr msg \<and>
     parse_message H msg (magic_bytes bitcoin_config) = Inr (pstr ''version'', p, []) \<and>
     parse_version_payload p = Inr v \<and>
     ip (addr_recv v) = pstr ''0.0.0.1'' \<and> port (addr_recv v) = 8333"
    by blast
qed

text \<open>
  Claim C4 at a payload whose user agent is 256 bytes long, its length written as the
  varint \<open>FD 00 01\<close>: \<open>read_varint\<close> at offset 80 gives 256, but
  \<open>parse_version_payload\<close> takes the byte \<open>0xFD\<close> alone as the length. It returns a user
  agent of 253 characters that begins with the two remaining varint bytes, and reads the
  start height (1 in the payload) from four bytes of the user agent.
\<close>

theorem user_agent_length_byte_divergence:
  "read_varint (replicate 80 0 @ [0xFD, 0x00, 0x01] @ replicate 256 0x41 @ [1, 0, 0, 0] @ [1]) 80
     = Inr (256, 83) \<and>
   (\<exists>v. parse_version_payload
          (replicate 80 0 @ [0xFD, 0x00, 0x01] @ replicate 256 0x41 @ [1, 0, 0, 0] @ [1]) = Inr v \<and>
        user_agent v = [0, 1] @ replicate 251 65 \<and>
        length (user_agent v) = 253 \<and>
        start_height v = 1094795585)"
proof
  let ?P = "replicate 80 0 @ [0xFD, 0x00, 0x01] @ replicate 256 0x41 @ [1, 0, 0, 0] @ [1] :: bytes"
  have n: "?P ! 80 = 0xFD" by (simp add: nth_append)
  have ia: "index_at ?P 80 = Inr 0xFD" using n by (simp add: index_at_def)
  have sl: "slice ?P (80 + 1) (80 + 3) = [0, 1]" by (simp add: slice_def)
  show "read_varint ?P 80 = Inr (256, 83)"
    unfolding read_varint_def ia and_then_Inr using sl by (simp add: unpack_le_def)
  have len: "85 + unat (?P ! 80) \<le> length ?P" unfolding n by simp
  have ua: "slice ?P 81 (81 + unat (?P ! 80)) = [0, 1] @ replicate 251 0x41"
    unfolding n by (simp add: slice_def)
  have "list_all (\<lambda>b. b < 128) ([0, 1] @ replicate 251 (65::nat))"
    by (simp add: list_all_iff)
  then have dec: "decode_utf8_replace ([0, 1] @ replicate 251 0x41) = [0, 1] @ replicate 251 65"
    using utf8_replace_ascii [of "[0, 1] @ replicate 251 65"]
    by (simp add: decode_utf8_replace_def)
  have r4: "replicate 4 (0x41 :: byte) = [0x41, 0x41, 0x41, 0x41]"
    by (simp add: numeral_eq_Suc)
  have sh: "slice ?P (81 + unat (?P ! 80)) (85 + unat (?P ! 80)) = [0x41, 0x41, 0x41, 0x41]"
    unfolding n r4 [symmetric] by (simp add: slice_def)
  show "\<exists>v. parse_version_payload ?P = Inr v \<and>
        user_agent v = [0, 1] @ replicate 251 65 \<and>
        length (user_agent v) = 253 \<and>
        start_height v = 1094795585"
    unfolding parse_version_payload_ok [OF len] ua dec sh by simp
qed

section \<open>The addr payload\<close>

lemma unpack_le_range:
  "b \<le> length xs \<Longrightarrow> a + k = b \<Longrightarrow>
     unpack_le k (slice xs a b) = Inr (int (le_val (slice xs a b)))"
  using unpack_le_slice [of a k xs] by auto

lemma unpack_be_range:
  "b \<le> length xs \<Longrightarrow> a + k = b \<Longrightarrow>
     unpack_be k (slice xs a b) = Inr (int (le_val (rev (slice xs a b))))"
  using unpack_be_slice [of a k xs] by auto

lemma addr_loop_step:
  assumes "offset + 30 \<le> length payload"
  shows "addr_loop print6 payload (Suc n) offset addresses =
           addr_loop print6 payload n (offset + 30) (addresses @ [addr_entry print6 payload offset])"
proof -
  let ?ipb = "slice payload (offset + 12) (offset + 28)"
  have u1: "unpack_le 4 (slice payload offset (offset + 4)) =
              Inr (int (le_val (slice payload offset (offset + 4))))"
    by (rule unpack_le_range) (use assms in simp_all)
  have u2: "unpack_le 8 (slice payload (offset + 4) (offset + 12)) =
              Inr (int (le_val (slice payload (offset + 4) (offset + 12))))"
    by (rule unpack_le_range) (use assms in simp_all)
  have u3: "unpack_be 2 (slice payload (offset + 28) (offset + 30)) =
              Inr (int (le_val (rev (slice payload (offset + 28) (offset + 30)))))"
    by (rule unpack_be_range) (use assms in simp_all)
  have l: "length ?ipb = 16" using assms by (simp add: length_slice)
  have "length (slice ?ipb 12 16) = 4" using l by (simp add: slice_def)
  then have "inet_ntoa (slice ?ipb 12 16) =
      Inr (dotted_quad (slice ?ipb 12 16 ! 0) (slice ?ipb 12 16 ! 1)
                       (slice ?ipb 12 16 ! 2) (slice ?ipb 12 16 ! 3))"
    by (rule inet_ntoa_4)
  moreover have "slice ?ipb 12 16 ! 0 = payload ! (offset + 24)"
    "slice ?ipb 12 16 ! 1 = payload ! (offset + 25)"
    "slice ?ipb 12 16 ! 2 = payload ! (offset + 26)"
    "slice ?ipb 12 16 ! 3 = payload ! (offset + 27)"
    using assms by (simp_all add: slice_def add.assoc)
  ultimately have n4: "inet_ntoa (slice ?ipb 12 16) =
      Inr (dotted_quad (payload ! (offset + 24)) (payload ! (offset + 25))
                       (payload ! (offset + 26)) (payload ! (offset + 27)))"
    by simp
  have n6: "inet_ntop6 print6 ?ipb = Inr (print6 ?ipb)" using l by (simp add: inet_ntop6_def)
  have c: "\<not> offset + 30 > length payload" using assms by simp
  show ?thesis
  proof (cases "take 12 ?ipb = replicate 10 0 @ [0xff, 0xff]")
    case True
    then show ?thesis
      by (simp only: addr_loop.simps c if_False if_True u1 u2 u3 and_then_Inr Let_def n4
          addr_entry_def simp_thms)
  next
    case False
    then show ?thesis
      by (simp only: addr_loop.simps c if_False u1 u2 u3 and_then_Inr Let_def n6
          addr_entry_def simp_thms)
  qed
qed

lemma addr_loop_eq:
  "addr_loop print6 payload n offset addresses =
     Inr (addresses @ map (\<lambda>i. addr_entry print6 payload (offset + 30 * i))
                        [0..<min n ((length payload - offset) div 30)])"
proof (induction n arbitrary: offset addresses)
  case 0
  then show ?case by simp
next
  case (Suc n)
  show ?case
  proof (cases "offset + 30 \<le> length payload")
    case False
    then have "(length payload - offset) div 30 = 0" by simp
    with False show ?thesis by simp
  next
    case True
    then have d: "(length payload - offset) div 30 = Suc ((length payload - (offset + 30)) div 30)"
      using le_div_geq [of 30 "length payload - offset"] by simp
    have "[0..<Suc (min n ((length payload - (offset + 30)) div 30))] =
            0 # map Suc [0..<min n ((length payload - (offset + 30)) div 30)]"
      by (simp only: upt_conv_Cons [of 0] map_Suc_upt zero_less_Suc if_True)
    then show ?thesis
      unfolding addr_loop_step [OF True] Suc.IH d min_Suc_Suc
      by (simp add: comp_def add.assoc)
  qed
qed

lemma parse_addr_payload_eq:
  assumes "read_varint payload 0 = Inr (count, offset)"
  shows "parse_addr_payload print6 payload =
     Inr (map (\<lambda>i. addr_entry print6 payload (offset + 30 * i))
              [0..<min (nat count) ((length payload - offset) div 30)])"
  by (simp add: parse_addr_payload_def assms addr_loop_eq)

lemma slice_slice: "a + d \<le> b \<Longrightarrow> slice (slice xs a b) c d = slice xs (a + c) (a + d)"
  by (simp add: slice_def drop_take min_def add.commute)

lemma read_varint_nonneg: "read_varint data offset = Inr (count, offset') \<Longrightarrow> 0 \<le> count"
  by (auto simp: read_varint_def and_then_eq_Inr unpack_le_def split: if_splits)

lemma addr_entry_fields:
  assumes "offset + 30 \<le> length payload"
  defines "e \<equiv> slice payload offset (offset + 30)"
  shows "timestamp (addr_entry print6 payload offset) = Some (int (le_val (slice e 0 4)))"
    and "services (addr_entry print6 payload offset) = int (le_val (slice e 4 12))"
    and "port (addr_entry print6 payload offset) = int (le_val (rev (slice e 28 30)))"
    and "ip (addr_entry print6 payload offset) =
           (if slice e 12 24 = replicate 10 0 @ [0xff, 0xff]
            then dotted_quad (e ! 24) (e ! 25) (e ! 26) (e ! 27)
            else print6 (slice e 12 28))"
proof -
  have s: "slice e 0 4 = slice payload offset (offset + 4)"
    "slice e 4 12 = slice payload (offset + 4) (offset + 12)"
    "slice e 28 30 = slice payload (offset + 28) (offset + 30)"
    "slice e 12 28 = slice payload (offset + 12) (offset + 28)"
    "slice e 12 24 = slice payload (offset + 12) (offset + 24)"
    unfolding e_def by (simp_all add: slice_slice)
  have t: "take 12 (slice payload (offset + 12) (offset + 28)) = slice payload (offset + 12) (offset + 24)"
    by (simp add: slice_def)
  have n: "e ! 24 = payload ! (offset + 24)" "e ! 25 = payload ! (offset + 25)"
    "e ! 26 = payload ! (offset + 26)" "e ! 27 = payload ! (offset + 27)"
    unfolding e_def using assms by (simp_all add: nth_slice)
  show "timestamp (addr_entry print6 payload offset) = Some (int (le_val (slice e 0 4)))"
    and "services (addr_entry print6 payload offset) = int (le_val (slice e 4 12))"
    and "port (addr_entry print6 payload offset) = int (le_val (rev (slice e 28 30)))"
    and "ip (addr_entry print6 payload offset) =
           (if slice e 12 24 = replicate 10 0 @ [0xff, 0xff]
            then dotted_quad (e ! 24) (e ! 25) (e ! 26) (e ! 27)
            else print6 (slice e 12 28))"
    unfolding s n by (simp_all add: addr_entry_def t)
qed

lemma read_varint_sample:
  "read_varint [2, 0, 0, 0, 0x65, 1, 0, 0, 0, 0, 0, 0, 0, 0, 0, 0, 0, 0, 0, 0, 0, 0, 0, 0xff, 0xff,
                1, 2, 3, 4, 0x20, 0x8d, 1, 2, 3] 0 = Inr (2, 1)"
  by (simp add: read_varint_def index_at_def)

text \<open>
  Claim C8. For every addr payload whose count is readable and every entry \<open>i\<close> below the
  count whose 30 bytes are all present, \<open>parse_addr_payload\<close> returns a list whose
  \<open>i\<close>-th \<open>NetAddr\<close> has, with \<open>e\<close> the 30 bytes of the entry: as timestamp the first 4
  bytes little endian, as services the next 8 bytes little endian, as port the last 2 bytes
  big endian, and as ip the dotted quad of the last 4 bytes of the 16-byte IP field when
  that field starts with 10 zero bytes and \<open>ff ff\<close>, else the IPv6 text of the field.
\<close>

theorem parse_addr_payload_entry:
  assumes "read_varint payload 0 = Inr (count, offset)"
    and "int i < count"
    and "offset + 30 * i + 30 \<le> length payload"
  shows "\<exists>addrs. parse_addr_payload print6 payload = Inr addrs \<and> i < length addrs \<and>
     (let e = slice payload (offset + 30 * i) (offset + 30 * i + 30); a = addrs ! i in
        timestamp a = Some (int (le_val (slice e 0 4))) \<and>
        services a = int (le_val (slice e 4 12)) \<and>
        port a = int (le_val (rev (slice e 28 30))) \<and>
        ip a = (if slice e 12 24 = replicate 10 0 @ [0xff, 0xff]
                then dotted_quad (e ! 24) (e ! 25) (e ! 26) (e ! 27)
                else print6 (slice e 12 28)))"
proof -
  let ?m = "min (nat count) ((length payload - offset) div 30)"
  let ?addrs = "map (\<lambda>i. addr_entry print6 payload (offset + 30 * i)) [0..<?m]"
  have p: "parse_addr_payload print6 payload = Inr ?addrs"
    by (rule parse_addr_payload_eq [OF assms(1)])
  have "30 * (i + 1) \<le> length payload - offset" using assms(3) by simp
  then have "i + 1 \<le> (length payload - offset) div 30"
    by (simp add: less_eq_div_iff_mult_less_eq mult.commute)
  moreover have "i < nat count" using assms(2) by simp
  ultimately have i: "i < ?m" by simp
  then have a: "?addrs ! i = addr_entry print6 payload (offset + 30 * i)" by simp
  from i have l: "i < length ?addrs" by simp
  show ?thesis
    apply (rule exI [of _ ?addrs])
    apply (intro conjI p l)
    unfolding Let_def a
    using addr_entry_fields [OF assms(3), of print6]
    apply simp
    done
qed

text \<open>An addr payload with count 2, one complete IPv4-mapped entry and three stray bytes.\<close>

theorem parse_addr_payload_entry_witness:
  "\<forall>print6. \<exists>addrs.
     parse_addr_payload print6
       [2, 0, 0, 0, 0x65, 1, 0, 0, 0, 0, 0, 0, 0, 0, 0, 0, 0, 0, 0, 0, 0, 0, 0, 0xff, 0xff,
        1, 2, 3, 4, 0x20, 0x8d, 1, 2, 3] = Inr addrs \<and>
     timestamp (addrs ! 0) = Some 1694498816 \<and> services (addrs ! 0) = 1 \<and>
     port (addrs ! 0) = 8333 \<and> ip (addrs ! 0) = pstr ''1.2.3.4''"
proof
  fix print6 :: ntop6
  let ?P = "[2, 0, 0, 0, 0x65, 1, 0, 0, 0, 0, 0, 0, 0, 0, 0, 0, 0, 0, 0, 0, 0, 0, 0, 0xff, 0xff,
             1, 2, 3, 4, 0x20, 0x8d, 1, 2, 3] :: bytes"
  have e: "slice ?P (1 + 30 * 0) (1 + 30 * 0 + 30) =
      [0, 0, 0, 0x65, 1, 0, 0, 0, 0, 0, 0, 0, 0, 0, 0, 0, 0, 0, 0, 0, 0, 0, 0xff, 0xff,
       1, 2, 3, 4, 0x20, 0x8d]"
    by (simp add: slice_def)
  have r: "replicate 10 (0::byte) @ [0xff, 0xff] = [0, 0, 0, 0, 0, 0, 0, 0, 0, 0, 0xff, 0xff]"
    by (simp add: numeral_eq_Suc)
  from parse_addr_payload_entry [OF read_varint_sample, of 0 print6]
  obtain addrs where "parse_addr_payload print6 ?P = Inr addrs"
    and "timestamp (addrs ! 0) = Some 1694498816 \<and> services (addrs ! 0) = 1 \<and>
         port (addrs ! 0) = 8333 \<and> ip (addrs ! 0) = pstr ''1.2.3.4''"
    unfolding e Let_def r
    by (auto simp: slice_def dotted_quad_def dec_octet_def pstr_def)
  then show "\<exists>addrs. parse_addr_payload print6 ?P = Inr addrs \<and>
     timestamp (addrs ! 0) = Some 1694498816 \<and> services (addrs ! 0) = 1 \<and>
     port (addrs ! 0) = 8333 \<and> ip (addrs ! 0) = pstr ''1.2.3.4''"
    by blast
qed

text \<open>
  Claim C10. For every addr payload whose leading varint count is readable,
  \<open>parse_addr_payload\<close> returns a list and raises nothing: the list has
  \<open>min count k\<close> entries, \<open>k\<close> the number of complete 30-byte entries after the
  varint, so at most \<open>count\<close>; its entries are the leading complete ones, and the bytes of
  a truncated trailing entry are dropped.
\<close>

theorem parse_addr_payload_truncated:
  assumes "read_varint payload 0 = Inr (count, offset)"
  shows "\<exists>addrs. parse_addr_payload print6 payload = Inr addrs \<and>
     length addrs = min (nat count) ((length payload - offset) div 30) \<and>
     int (length addrs) \<le> count \<and>
     (\<forall>i < length addrs. addrs ! i = addr_entry print6 payload (offset + 30 * i))"
proof -
  let ?m = "min (nat count) ((length payload - offset) div 30)"
  let ?addrs = "map (\<lambda>i. addr_entry print6 payload (offset + 30 * i)) [0..<?m]"
  have p: "parse_addr_payload print6 payload = Inr ?addrs"
    by (rule parse_addr_payload_eq [OF assms])
  have c: "0 \<le> count" using assms by (rule read_varint_nonneg)
  have l: "length ?addrs = ?m" by simp
  have b: "int (length ?addrs) \<le> count" using c by simp
  have d: "\<forall>i < length ?addrs. ?addrs ! i = addr_entry print6 payload (offset + 30 * i)"
    by simp
  show ?thesis by (intro exI [of _ ?addrs] conjI p l b d)
qed

text \<open>The same payload: count 2, one complete entry, and the list has one address.\<close>

theorem parse_addr_payload_truncated_witness:
  "\<forall>print6. \<exists>addrs.
     parse_addr_payload print6
       [2, 0, 0, 0, 0x65, 1, 0, 0, 0, 0, 0, 0, 0, 0, 0, 0, 0, 0, 0, 0, 0, 0, 0, 0xff, 0xff,
        1, 2, 3, 4, 0x20, 0x8d, 1, 2, 3] = Inr addrs \<and>
     length addrs = 1"
proof
  fix print6 :: ntop6
  let ?P = "[2, 0, 0, 0, 0x65, 1, 0, 0, 0, 0, 0, 0, 0, 0, 0, 0, 0, 0, 0, 0, 0, 0, 0, 0xff, 0xff,
             1, 2, 3, 4, 0x20, 0x8d, 1, 2, 3] :: bytes"
  from parse_addr_payload_truncated [OF read_varint_sample, of print6]
  obtain addrs where "parse_addr_payload print6 ?P = Inr addrs"
    and "length addrs = min (nat 2) ((length ?P - 1) div 30)"
    by blast
  then show "\<exists>addrs. parse_addr_payload print6 ?P = Inr addrs \<and> length addrs = 1"
    by simp
qed

section \<open>The GeoIP cache\<close>

lemma dict_set_absent: "map_of d k = None \<Longrightarrow> dict_set d k v = d @ [(k, v)]"
  by (induction d) (auto split: if_splits)

lemma dict_del_absent: "k \<notin> fst ` set d \<Longrightarrow> dict_del d k = d"
  by (induction d) (auto simp: dict_del_def)

lemma fold_dict_del_prefix:
  "distinct (map fst (xs @ ys)) \<Longrightarrow> fold (\<lambda>key d. dict_del d key) (map fst xs) (xs @ ys) = ys"
proof (induction xs)
  case Nil
  then show ?case by simp
next
  case (Cons x xs)
  then have "fst x \<notin> fst ` set (xs @ ys)" by auto
  then have "dict_del (x # xs @ ys) (fst x) = xs @ ys"
    using dict_del_absent [of "fst x" "xs @ ys"] by (simp add: dict_del_def)
  with Cons show ?case by simp
qed

lemma evict_oldest:
  assumes "distinct (map fst d)"
  shows "fold (\<lambda>key d. dict_del d key) (take n (map fst d)) d = drop n d"
  using fold_dict_del_prefix [of "take n d" "drop n d"] assms by (simp add: take_map)

lemma cache_update_same: "cache (self \<lparr> cache := c \<rparr>) = c"
  by simp

lemma lookup_miss:
  assumes m: "map_of (cache self) addr = None" and rd: "reader self = Some city_reader"
    and dist: "distinct (map fst (cache self))"
  shows "cache (snd (lookup self addr)) =
           (if length (cache self) \<ge> 10000
            then drop 5000 (cache self @ [(addr, fst (lookup self addr))])
            else cache self @ [(addr, fst (lookup self addr))])"
proof -
  define r where "r = fst (lookup self addr)"
  let ?c1 = "dict_set (cache self) addr r"
  have l: "lookup self addr =
      (r, self \<lparr> cache := (if length ?c1 > 10000
                              then fold (\<lambda>key d. dict_del d key) (take 5000 (map fst ?c1)) ?c1
                              else ?c1) \<rparr>)"
    unfolding r_def using m rd by (simp add: lookup_def Let_def)
  have "addr \<notin> fst ` set (cache self)" using m by (simp add: map_of_eq_None_iff)
  then have d: "distinct (map fst (cache self @ [(addr, r)]))" using dist by simp
  have c1: "?c1 = cache self @ [(addr, r)]" by (rule dict_set_absent [OF m])
  have ev: "fold (\<lambda>key d. dict_del d key) (take 5000 (map fst (cache self @ [(addr, r)])))
              (cache self @ [(addr, r)]) = drop 5000 (cache self @ [(addr, r)])"
    by (rule evict_oldest [OF d])
  have "cache (snd (lookup self addr)) =
      (if length (cache self @ [(addr, r)]) > 10000 then drop 5000 (cache self @ [(addr, r)])
       else cache self @ [(addr, r)])"
    unfolding l c1 ev by (simp only: snd_conv cache_update_same)
  moreover have "length (cache self @ [(addr, r)]) > 10000 \<longleftrightarrow> length (cache self) \<ge> 10000"
    by auto
  ultimately show ?thesis unfolding r_def by (simp only:)
qed

lemma lookup_hit_or_no_reader:
  "map_of (cache self) addr \<noteq> None \<or> reader self = None \<Longrightarrow> snd (lookup self addr) = self"
  by (auto simp: lookup_def split: option.splits)

lemma lookup_readers [simp]:
  "reader (snd (lookup self addr)) = reader self"
  "asn_reader (snd (lookup self addr)) = asn_reader self"
  by (auto simp: lookup_def Let_def split: option.splits)

lemma lookup_invariant:
  assumes "distinct (map fst (cache self))" and "length (cache self) \<le> 10000"
  shows "distinct (map fst (cache (snd (lookup self addr)))) \<and>
         length (cache (snd (lookup self addr))) \<le> 10000"
proof (cases "map_of (cache self) addr \<noteq> None \<or> reader self = None")
  case True
  then show ?thesis using assms by (simp add: lookup_hit_or_no_reader)
next
  case False
  then obtain city_reader where m: "map_of (cache self) addr = None"
    and r: "reader self = Some city_reader" by auto
  have "addr \<notin> fst ` set (cache self)" using m by (simp add: map_of_eq_None_iff)
  then have d: "distinct (map fst (cache self @ [(addr, fst (lookup self addr))]))"
    using assms(1) by simp
  then have "distinct (map fst (drop 5000 (cache self @ [(addr, fst (lookup self addr))])))"
    unfolding drop_map [symmetric] by (rule distinct_drop)
  with d show ?thesis
    unfolding lookup_miss [OF m r assms(1)] using assms(2) by auto
qed

lemma lookups_invariant:
  assumes "distinct (map fst (cache self))" and "length (cache self) \<le> 10000"
  shows "distinct (map fst (cache (lookups self addrs))) \<and> length (cache (lookups self addrs)) \<le> 10000"
  using assms
proof (induction addrs arbitrary: self)
  case Nil
  then show ?case by simp
next
  case (Cons a addrs)
  from lookup_invariant [OF Cons.prems, of a] show ?case
    by (simp add: Cons.IH)
qed

lemma lookups_append: "lookups self (xs @ ys) = lookups (lookups self xs) ys"
  by (induction xs arbitrary: self) simp_all

lemma lookups_readers [simp]:
  "reader (lookups self addrs) = reader self"
  "asn_reader (lookups self addrs) = asn_reader self"
  by (induction addrs arbitrary: self) simp_all

lemma lookup_not_found:
  assumes "reader self = Some (\<lambda>_. AddressNotFound)" and "asn_reader self = None"
    and "map_of (cache self) addr = None"
  shows "fst (lookup self addr) = empty_result"
  using assms by (simp add: lookup_def Let_def)

lemma lookups_fill:
  assumes "n \<le> 10000"
  shows "cache (lookups (new_lookup (Some (\<lambda>_. AddressNotFound)) None :: 'v GeoIPLookup)
                  (map (\<lambda>i. [i]) [0..<n])) =
           map (\<lambda>i. ([i], empty_result)) [0..<n]"
  using assms
proof (induction n)
  case 0
  then show ?case by (simp add: new_lookup_def)
next
  case (Suc n)
  let ?s = "lookups (new_lookup (Some (\<lambda>_. AddressNotFound)) None :: 'v GeoIPLookup)
              (map (\<lambda>i. [i]) [0..<n])"
  have c: "cache ?s = map (\<lambda>i. ([i], empty_result)) [0..<n]" using Suc by simp
  have rd: "reader ?s = Some (\<lambda>_. AddressNotFound)" and ar: "asn_reader ?s = None"
    by (simp_all add: new_lookup_def)
  have m: "map_of (cache ?s) [n] = None"
    unfolding c by (auto simp: map_of_eq_None_iff)
  have d: "distinct (map fst (cache ?s))"
    unfolding c by (simp add: comp_def distinct_map inj_on_def)
  have l: "\<not> length (cache ?s) \<ge> 10000" unfolding c using Suc.prems by simp
  have "cache (snd (lookup ?s [n])) = cache ?s @ [([n], empty_result)]"
    unfolding lookup_miss [OF m rd d] lookup_not_found [OF rd ar m] using l by simp
  then show ?case
    by (simp add: lookups_append c)
qed

text \<open>
  Claim C9. Let \<open>s\<close> be the state of a \<open>GeoIPLookup\<close> object after any sequence of calls
  of \<open>lookup\<close> since \<open>__init__\<close>, and \<open>s'\<close> the state after one more call. The cache of
  \<open>s\<close> and of \<open>s'\<close> holds at most 10000 entries; and when the call inserts a new address
  into a cache of 10000 entries (the address is not cached and the city reader is loaded),
  the cache of \<open>s'\<close> is the old cache with the new entry appended and its first 5000
  entries, the earliest inserted, removed: 5001 entries.
\<close>

theorem geoip_cache_bound:
  "let s = lookups (new_lookup city_reader as_reader :: 'v GeoIPLookup) addrs;
       s' = snd (lookup s addr) in
     length (cache s) \<le> 10000 \<and> length (cache s') \<le> 10000 \<and>
     (map_of (cache s) addr = None \<and> reader s \<noteq> None \<and> length (cache s) = 10000 \<longrightarrow>
        cache s' = drop 5000 (cache s @ [(addr, fst (lookup s addr))]) \<and>
        length (cache s') = 5001)"
proof -
  let ?s = "lookups (new_lookup city_reader as_reader :: 'v GeoIPLookup) addrs"
  have inv: "distinct (map fst (cache ?s))" "length (cache ?s) \<le> 10000"
    using lookups_invariant [of "new_lookup city_reader as_reader" addrs]
    by (simp_all add: new_lookup_def)
  have a: "length (cache (snd (lookup ?s addr))) \<le> 10000"
    using lookup_invariant [OF inv, of addr] by simp
  have b: "map_of (cache ?s) addr = None \<and> reader ?s \<noteq> None \<and> length (cache ?s) = 10000 \<longrightarrow>
        cache (snd (lookup ?s addr)) = drop 5000 (cache ?s @ [(addr, fst (lookup ?s addr))]) \<and>
        length (cache (snd (lookup ?s addr))) = 5001"
  proof
    assume h: "map_of (cache ?s) addr = None \<and> reader ?s \<noteq> None \<and> length (cache ?s) = 10000"
    then obtain rd where rd: "reader ?s = Some rd" by auto
    from h have m: "map_of (cache ?s) addr = None" and l: "length (cache ?s) = 10000" by simp_all
    have e: "cache (snd (lookup ?s addr)) = drop 5000 (cache ?s @ [(addr, fst (lookup ?s addr))])"
      unfolding lookup_miss [OF m rd inv(1)] using l by simp
    moreover have "length (drop 5000 (cache ?s @ [(addr, fst (lookup ?s addr))])) = 5001"
      using l by simp
    ultimately show "cache (snd (lookup ?s addr)) =
        drop 5000 (cache ?s @ [(addr, fst (lookup ?s addr))]) \<and>
        length (cache (snd (lookup ?s addr))) = 5001" by simp
  qed
  show ?thesis unfolding Let_def by (intro conjI inv(2) a b)
qed

text \<open>
  An object whose city reader finds no address, after lookups of 10000 distinct strings
  (the one-character strings of the code points below 10000): the next new address leaves
  the 5001 latest entries.
\<close>

theorem geoip_cache_bound_witness:
  "let s = lookups (new_lookup (Some (\<lambda>_. AddressNotFound)) None) (map (\<lambda>i. [i]) [0..<10000])
         :: unit GeoIPLookup;
       s' = snd (lookup s [10000]) in
     length (cache s) = 10000 \<and> map_of (cache s) [10000] = None \<and> reader s \<noteq> None \<and>
     length (cache s') = 5001 \<and>
     cache s' = map (\<lambda>i. ([i], empty_result)) [5000..<10001]"
proof -
  let ?s = "lookups (new_lookup (Some (\<lambda>_. AddressNotFound)) None) (map (\<lambda>i. [i]) [0..<10000])
              :: unit GeoIPLookup"
  have c: "cache ?s = map (\<lambda>i. ([i], empty_result)) [0..<10000]"
    by (rule lookups_fill) simp
  have l: "length (cache ?s) = 10000" unfolding c by simp
  have m: "map_of (cache ?s) [10000] = None"
    unfolding c by (auto simp: map_of_eq_None_iff)
  have rd: "reader ?s = Some (\<lambda>_. AddressNotFound)" and ar: "asn_reader ?s = None"
    by (simp_all add: new_lookup_def)
  then have r: "reader ?s \<noteq> None" by simp
  from geoip_cache_bound [of "Some (\<lambda>_. AddressNotFound)" None "map (\<lambda>i. [i]) [0..<10000]" "[10000]"]
    l m r
  have e: "cache (snd (lookup ?s [10000])) = drop 5000 (cache ?s @ [([10000], fst (lookup ?s [10000]))])"
    and l': "length (cache (snd (lookup ?s [10000]))) = 5001"
    unfolding Let_def by blast+
  have "cache ?s @ [([10000], fst (lookup ?s [10000]))] =
          map (\<lambda>i. ([i], empty_result)) [0..<10001]"
    unfolding lookup_not_found [OF rd ar m] c
    using upt_Suc_append [of 0 10000] by simp
  then have "cache (snd (lookup ?s [10000])) = map (\<lambda>i. ([i], empty_result)) [5000..<10001]"
    unfolding e by (simp add: drop_map)
  with l m r l' show ?thesis unfolding Let_def by (intro conjI)
qed

section \<open>Configuration: precedence and validation\<close>

lemma getenv_unset: "environ w var = None \<Longrightarrow> getenv w var d = d"
  by (simp add: getenv_def)

lemma getenv_set: "environ w var = Some v \<Longrightarrow> getenv w var d = v"
  by (simp add: getenv_def)

text \<open>The precedence of an integer setting read through the YAML section: the environment
  variable, then the key of the section, then the default.\<close>

lemma setting_int_precedence:
  "setting_int b w (YDict items) var key d =
     int_of_str b (case environ w var of
                     Some v \<Rightarrow> v
                   | None \<Rightarrow> py_str b (case map_of items key of Some y \<Rightarrow> y | None \<Rightarrow> YInt d))"
  by (simp add: setting_int_def yaml_get_def int_of_str_def getenv_def split: option.splits)

lemma setting_float_precedence:
  "setting_float b w (YDict items) var key d =
     (case py_float b (case environ w var of
                         Some v \<Rightarrow> v
                       | None \<Rightarrow> py_str b (case map_of items key of Some y \<Rightarrow> y | None \<Rightarrow> YInt d)) of
        None \<Rightarrow> Inl (ValueError ''could not convert string to float'')
      | Some x \<Rightarrow> Inr x)"
  by (simp add: setting_float_def yaml_get_def getenv_def split: option.splits)







text \<open>Every field of a loaded configuration that comes from the YAML section.\<close>

lemma load_config_settings:
  assumes l: "load_config b w = Inr (warned, cfg)"
      and cy: "load_crawler_config_from_yaml w = Inr cy"
  shows "setting_int b w cy ''PRUNE_AFTER_HOURS'' ''pruneAfterHours'' 168 = Inr (prune_after_hours cfg)"
    and "setting_int b w cy ''CRAWLER_INTERVAL_MINUTES'' ''scanIntervalMinutes'' 5 = Inr (interval_minutes cfg)"
    and "setting_int b w cy ''MAX_CONCURRENT_CONNECTIONS'' ''maxConcurrentConnections'' 100 = Inr (max_concurrent cfg)"
    and "setting_int b w cy ''CONNECTION_TIMEOUT_SECONDS'' ''connectionTimeoutSeconds'' 10 = Inr (connection_timeout cfg)"
    and "setting_int b w cy ''EXTENDED_TIMEOUT_SECONDS'' ''extendedTimeoutSeconds'' 30 = Inr (extended_timeout cfg)"
    and "setting_int b w cy ''MAX_RETRIES'' ''maxRetries'' 3 = Inr (max_retries cfg)"
    and "setting_float b w cy ''INITIAL_RETRY_DELAY_SECONDS'' ''initialRetryDelaySeconds'' 1 = Inr (initial_retry_delay cfg)"
    and "setting_float b w cy ''RETRY_BACKOFF_MULTIPLIER'' ''retryBackoffMultiplier'' 2 = Inr (retry_backoff_multiplier cfg)"
    and "yaml_get cy ''requireVersionForSave'' (YBool True) = Inr (require_version_for_save cfg)"
  using l cy unfolding load_config_def
  by (auto simp: and_then_def Let_def split: sum.splits if_splits)

text \<open>The loaded \<open>getaddr_delay_ms\<close> is read from the environment alone.\<close>

lemma getaddr_delay_from_environment:
  assumes "load_config b w = Inr (warned, cfg)"
  shows "int_of_str b (getenv w ''GETADDR_DELAY_MS'' (pstr ''100'')) = Inr (getaddr_delay_ms cfg)"
  using assms unfolding load_config_def
  by (auto simp: and_then_def Let_def split: sum.splits if_splits)

lemma dec_digits_digits: "list_all (\<lambda>c. 48 \<le> c \<and> c \<le> 57) (dec_digits n)"
proof (induction n rule: dec_digits.induct)
  case (1 n)
  show ?case
  proof (cases "n < 10")
    case True
    then show ?thesis by (subst dec_digits.simps) simp
  next
    case False
    have "n mod 10 < 10" by simp
    then have "48 + n mod 10 \<le> 57" by arith
    with False 1 show ?thesis by (subst dec_digits.simps) simp
  qed
qed

lemma dec_digits_nonempty: "dec_digits n \<noteq> []"
  by (subst dec_digits.simps) simp

lemma dec_digits_value: "foldl (\<lambda>a c. 10 * a + (c - 48)) 0 (dec_digits n) = n"
proof (induction n rule: dec_digits.induct)
  case (1 n)
  show ?case
  proof (cases "n < 10")
    case True
    then show ?thesis by (subst dec_digits.simps) simp
  next
    case False
    with 1 show ?thesis by (subst dec_digits.simps) simp
  qed
qed

lemma digits_value_dec_digits: "digits_value (dec_digits n) = Some (int n)"
proof -
  have "\<not> list_ex (\<lambda>c. c < 48 \<or> 57 < c) (dec_digits n)"
    using dec_digits_digits [of n] by (auto simp: list_all_iff list_ex_iff)
  then show ?thesis
    by (simp add: digits_value_def dec_digits_nonempty dec_digits_value)
qed

lemma strip_blanks_digits:
  assumes "list_all (\<lambda>c. \<not> is_blank c) s"
  shows "strip_blanks s = s"
proof -
  have a: "dropWhile is_blank s = s"
    using assms by (cases s) simp_all
  have "list_all (\<lambda>c. \<not> is_blank c) (rev s)"
    using assms by (simp add: list_all_iff)
  then have b: "dropWhile is_blank (rev s) = rev s"
    by (cases "rev s") simp_all
  show ?thesis by (simp add: strip_blanks_def a b)
qed

lemma dec_digits_not_blank: "list_all (\<lambda>c. \<not> is_blank c) (dec_digits n)"
  using dec_digits_digits [of n] by (auto simp: list_all_iff is_blank_def)

lemma ascii_int_dec_digits: "ascii_int (dec_digits n) = Some (int n)"
proof -
  obtain c r where cr: "dec_digits n = c # r"
    using dec_digits_nonempty [of n] by (cases "dec_digits n") auto
  have "48 \<le> c" using dec_digits_digits [of n] cr by simp
  then have c: "c \<noteq> 45" "c \<noteq> 43" by simp_all
  have sb: "strip_blanks (dec_digits n) = dec_digits n"
    using dec_digits_not_blank by (rule strip_blanks_digits)
  have "ascii_int (dec_digits n) = digits_value (dec_digits n)"
    unfolding ascii_int_def sb unfolding cr using c by simp
  then show ?thesis by (simp add: digits_value_dec_digits)
qed

lemma ascii_int_minus_dec_digits: "ascii_int (45 # dec_digits n) = Some (- int n)"
proof -
  have "list_all (\<lambda>c. \<not> is_blank c) (45 # dec_digits n)"
    using dec_digits_not_blank [of n] by (simp add: is_blank_def)
  then have "strip_blanks (45 # dec_digits n) = 45 # dec_digits n"
    by (rule strip_blanks_digits)
  then show ?thesis by (simp add: ascii_int_def digits_value_dec_digits)
qed

text \<open>On an integer, \<open>int(str(n))\<close> is \<open>n\<close>.\<close>

lemma ascii_int_str: "ascii_int (ascii_str (YInt n)) = Some n"
  by (cases "n < 0") (simp_all add: ascii_int_dec_digits ascii_int_minus_dec_digits)

lemma ascii_builtins_int_str [simp]:
  "py_int ascii_builtins (py_str ascii_builtins (YInt n)) = Some n"
  "py_float ascii_builtins (py_str ascii_builtins (YInt n)) = Some (Finite (of_int n))"
  using ascii_int_str [of n] by (simp_all add: ascii_builtins_def)

lemma sample_world_sel [simp]:
  "environ (sample_world env crawler) = env"
  "chain_yaml (sample_world env crawler) = Inr bitcoin_config"
  "load_crawler_config_from_yaml (sample_world env crawler) = Inr crawler"
  by (simp_all add: sample_world_def load_crawler_config_from_yaml_def sample_project_config_def
        yaml_get_def)

lemma ascii_int_100: "py_int ascii_builtins (pstr ''100'') = Some 100"
  by (simp add: ascii_builtins_def ascii_int_def strip_blanks_def is_blank_def digits_value_def
        pstr_def)

text \<open>
  Claim C6 at a \<open>project.config.yaml\<close> whose \<open>crawlerConfig\<close> section sets \<open>maxRetries\<close> to 7
  and \<open>getaddr_delay_ms\<close> to 500, in a process with no environment variable set:
  \<open>load_config\<close> returns the file's \<open>maxRetries\<close>, 7, but \<open>getaddr_delay_ms = 100\<close>, the
  default, not the file's 500.
\<close>

theorem getaddr_delay_ignores_yaml:
  "\<exists>cfg. load_config ascii_builtins
            (sample_world (\<lambda>var. None)
               (YDict [(''maxRetries'', YInt 7), (''getaddr_delay_ms'', YInt 500)]))
          = Inr (False, cfg) \<and>
         max_retries cfg = 7 \<and> getaddr_delay_ms cfg = 100"
  unfolding load_config_def
  by (simp add: setting_int_precedence setting_float_precedence yaml_get_def getenv_def
        int_of_str_def validate_fallback_def ascii_int_100 Let_def bitcoin_config_def)




end
